theory Spec2Isabelle
  imports Complex_Main
begin

section \<open>Dense matrices as lists of rows\<close>

text \<open>
  The numpy arrays of \<^verbatim>\<open>nmf.py\<close> are modelled over the reals, as row-major lists of rows.
  Shapes are not checked by the operations: numpy raises \<^verbatim>\<open>ValueError\<close> on operands whose
  shapes do not fit, and the theorems below state the shapes of the data model
  (A is bands x pixels, W is bands x sources, H is sources x pixels) as hypotheses.
  Row indexing by a Python index and the explicit \<^verbatim>\<open>raise\<close> statements are modelled as errors,
  and so is the \<^verbatim>\<open>ValueError\<close> of \<^verbatim>\<open>getIntensityDiff\<close> for an operator that does not fit
  the row it is applied to.

  A division by zero is not an error in numpy: the entry becomes inf or nan and the
  function goes on. No real matrix holds such an entry, so the model stops there with
  \<open>NonFinite\<close>; what numpy computes from inf and nan is outside this model.
\<close>

type_synonym vector = "real list"
type_synonym matrix = "real list list"

datatype error =
    NotImplementedError string
  | IndexError
  | ValueError
  | LinAlgError
  | NonFinite

definition is_mat :: "nat \<Rightarrow> nat \<Rightarrow> matrix \<Rightarrow> bool" where
  "is_mat r c M = (length M = r \<and> (\<forall>i<r. length (M ! i) = c))"

definition ncols :: "matrix \<Rightarrow> nat" where
  "ncols M = (case M of [] \<Rightarrow> 0 | r # _ \<Rightarrow> length r)"

definition zeros :: "nat \<Rightarrow> nat \<Rightarrow> matrix" where
  "zeros r c = replicate r (replicate c 0)"

definition eye :: "nat \<Rightarrow> matrix" where
  "eye n = map (\<lambda>i. map (\<lambda>j. if i = j then 1 else 0) [0..<n]) [0..<n]"

definition fliplr :: "matrix \<Rightarrow> matrix" where
  "fliplr M = map rev M"

definition transpose_m :: "matrix \<Rightarrow> matrix" where
  "transpose_m M = map (\<lambda>j. map (\<lambda>r. r ! j) M) [0..<ncols M]"

definition matvec :: "matrix \<Rightarrow> vector \<Rightarrow> vector" where
  "matvec M v = map (\<lambda>r. \<Sum>k<length r. r ! k * v ! k) M"

definition matmul :: "matrix \<Rightarrow> matrix \<Rightarrow> matrix" where
  "matmul A B = map (\<lambda>r. map (\<lambda>j. \<Sum>k<length r. r ! k * B ! k ! j) [0..<ncols B]) A"

definition map2_m :: "(real \<Rightarrow> real \<Rightarrow> real) \<Rightarrow> matrix \<Rightarrow> matrix \<Rightarrow> matrix" where
  "map2_m f A B = map2 (map2 f) A B"

definition add_m :: "matrix \<Rightarrow> matrix \<Rightarrow> matrix" where
  "add_m A B = map2_m (+) A B"

definition sub_m :: "matrix \<Rightarrow> matrix \<Rightarrow> matrix" where
  "sub_m A B = map2_m (-) A B"

definition mul_m :: "matrix \<Rightarrow> matrix \<Rightarrow> matrix" where
  "mul_m A B = map2_m (*) A B"

definition div_m :: "matrix \<Rightarrow> matrix \<Rightarrow> matrix" where
  "div_m A B = map2_m (/) A B"

text \<open>\<^verbatim>\<open>A / B\<close> entry by entry, for arrays of one shape: a zero in B leaves the reals.\<close>

definition has_zero :: "matrix \<Rightarrow> bool" where
  "has_zero M = list_ex (list_ex (\<lambda>x. x = 0)) M"

definition divide_m :: "matrix \<Rightarrow> matrix \<Rightarrow> error + matrix" where
  "divide_m A B = (if has_zero B then Inl NonFinite else Inr (div_m A B))"

definition scale_m :: "real \<Rightarrow> matrix \<Rightarrow> matrix" where
  "scale_m c M = map (map (\<lambda>x. c * x)) M"

definition add_scalar :: "matrix \<Rightarrow> real \<Rightarrow> matrix" where
  "add_scalar M c = map (map (\<lambda>x. x + c)) M"

definition abs_m :: "matrix \<Rightarrow> matrix" where
  "abs_m M = map (map abs) M"

text \<open>\<^verbatim>\<open>np.sum(M, axis=0)\<close>: the vector of column sums.\<close>

definition sum_axis0 :: "matrix \<Rightarrow> vector" where
  "sum_axis0 M = map (\<lambda>j. \<Sum>i<length M. M ! i ! j) [0..<ncols M]"

text \<open>\<^verbatim>\<open>M / v\<close> with a vector \<^verbatim>\<open>v\<close> of one entry per column (numpy broadcasts it over the rows).\<close>

definition div_cols :: "matrix \<Rightarrow> vector \<Rightarrow> matrix" where
  "div_cols M v = map (\<lambda>r. map2 (/) r v) M"

text \<open>\<^verbatim>\<open>normFactor[normFactor==0] = 1\<close>\<close>

definition zero_to_one :: "vector \<Rightarrow> vector" where
  "zero_to_one v = map (\<lambda>x. if x = 0 then 1 else x) v"

definition eps :: real where
  "eps = 1 / 1000000000"

section \<open>Residual diagnostics of \<^verbatim>\<open>MulticolorCalExp.deblend\<close>\<close>

text \<open>
  \<^verbatim>\<open>diff = (np.dot(newW, newH)-self.data)[fidx]\<close> and the number that is logged as
  \<^verbatim>\<open>Residual difference\<close>: \<^verbatim>\<open>100*np.abs(np.sum(diff)/np.sum(self.data[fidx]))\<close>.
  The reshape to the footprint's shape does not change the sum.
\<close>

definition residual :: "matrix \<Rightarrow> matrix \<Rightarrow> matrix \<Rightarrow> nat \<Rightarrow> vector" where
  "residual W H data' fidx = sub_m (matmul W H) data' ! fidx"

definition residualDifference :: "matrix \<Rightarrow> matrix \<Rightarrow> matrix \<Rightarrow> nat \<Rightarrow> real" where
  "residualDifference W H data' fidx =
     100 * \<bar>sum_list (residual W H data' fidx) / sum_list (data' ! fidx)\<bar>"

text \<open>
  The residual-energy fraction in the words of the specification: the sum of the absolute
  values of the residual entries over the sum of the absolute values of the band's data.
\<close>

definition residualFraction_spec :: "matrix \<Rightarrow> matrix \<Rightarrow> matrix \<Rightarrow> nat \<Rightarrow> real" where
  "residualFraction_spec W H data' fidx =
     sum_list (map abs (residual W H data' fidx)) / sum_list (map abs (data' ! fidx))"

section \<open>The proximal deblender's handling of unimplemented operators\<close>

text \<open>
  \<^verbatim>\<open>DeblendedParent\<close> of \<^verbatim>\<open>proximal.py\<close>, with the fields its methods assign. The data
  cube built by \<^verbatim>\<open>buildNmfData\<close>, the footprint and the result of the external solver
  \<^verbatim>\<open>pnmf.nmf_deblender\<close> are parameters; the display options keep their default
  \<^verbatim>\<open>False\<close>.
\<close>

record ('d, 'r) DeblendedParent =
  data :: "'d option"
  psfOp :: "unit option"
  symmetryOp :: "unit option"
  monotonicOp :: "unit option"
  result :: "'r option"

definition newDeblendedParent :: "('d, 'r) DeblendedParent" where
  "newDeblendedParent =
     \<lparr>data = None, psfOp = None, symmetryOp = None, monotonicOp = None, result = None\<rparr>"

definition initNMF :: "'d \<Rightarrow> bool \<Rightarrow> ('d, 'r) DeblendedParent \<Rightarrow> error + ('d, 'r) DeblendedParent" where
  "initNMF built initPsf self =
     (let self = self\<lparr>data := Some built\<rparr> in
      if initPsf then Inl (NotImplementedError ''The PSF Operator is not yet implemented'')
      else Inr (self\<lparr>psfOp := None\<rparr>))"

text \<open>\<^verbatim>\<open>getSymmetryOp\<close> and \<^verbatim>\<open>getMonotonicOp\<close>: a bare \<^verbatim>\<open>return\<close>, the object untouched.\<close>

definition getSymmetryOp :: "('d, 'r) DeblendedParent \<Rightarrow> error + (unit option \<times> ('d, 'r) DeblendedParent)" where
  "getSymmetryOp self = Inr (None, self)"

definition getMonotonicOp :: "('d, 'r) DeblendedParent \<Rightarrow> error + (unit option \<times> ('d, 'r) DeblendedParent)" where
  "getMonotonicOp self = Inr (None, self)"

definition lower :: "string \<Rightarrow> string" where
  "lower s = map (\<lambda>c. if (65::nat) \<le> of_char c \<and> of_char c \<le> (90::nat)
                       then char_of (of_char c + (32::nat)) else c) s"

text \<open>
  \<^verbatim>\<open>DeblendedParent.deblend\<close>: initialise the data when it is missing, repeat a single
  constraint for every peak, call the external solver and store what it returns.
\<close>

definition deblend_parent ::
  "('d \<Rightarrow> string \<Rightarrow> nat \<Rightarrow> error + 'r) \<Rightarrow> 'd \<Rightarrow> nat \<Rightarrow> string \<Rightarrow> nat \<Rightarrow>
   ('d, 'r) DeblendedParent \<Rightarrow> error + ('d, 'r) DeblendedParent" where
  "deblend_parent nmf_deblender built npeaks constraints maxiter self =
     (case (if data self = None then initNMF built False self else Inr self) of
        Inl e \<Rightarrow> Inl e
      | Inr self \<Rightarrow>
          (let constraints = (if length constraints = 1 then concat (replicate npeaks constraints)
                              else constraints) in
           case nmf_deblender (the (data self)) constraints maxiter of
             Inl e \<Rightarrow> Inl e
           | Inr res \<Rightarrow> Inr (self\<lparr>result := Some res\<rparr>)))"

text \<open>
  \<^verbatim>\<open>ExposureDeblend.deblendParent\<close>: both constraint tests end in \<^verbatim>\<open>pass\<close>, the calls of
  \<^verbatim>\<open>getSymmetryOp\<close> and \<^verbatim>\<open>getMonotonicOp\<close> being commented out.
\<close>

definition deblendParent ::
  "('d \<Rightarrow> string \<Rightarrow> nat \<Rightarrow> error + 'r) \<Rightarrow> 'd \<Rightarrow> nat \<Rightarrow> bool \<Rightarrow> string \<Rightarrow> nat \<Rightarrow>
   error + ('d, 'r) DeblendedParent" where
  "deblendParent nmf_deblender built npeaks initPsf constraints maxiter =
     (case initNMF built initPsf newDeblendedParent of
        Inl e \<Rightarrow> Inl e
      | Inr deblend \<Rightarrow>
          (let deblend = (if CHR ''s'' \<in> set (lower constraints) then deblend else deblend);
               deblend = (if CHR ''m'' \<in> set (lower constraints) then deblend else deblend)
           in deblend_parent nmf_deblender built npeaks constraints maxiter deblend))"

section \<open>Symmetry operators\<close>

text \<open>
  A footprint as the operators use it: the height and width of its bounding box and, for
  every peak in order, the offsets \<^verbatim>\<open>px = peak.getIx() - bbox.getMinX()\<close> and
  \<^verbatim>\<open>py = peak.getIy() - bbox.getMinY()\<close>. The peaks of a footprint lie inside its bounding
  box, so the offsets are natural numbers; the theorems assume them below the width and
  the height.
\<close>

record footprint =
  height :: nat
  width :: nat
  peaks :: "(nat \<times> nat) list"

text \<open>\<^verbatim>\<open>np.size\<close>: the number of entries of an array.\<close>

definition size_m :: "matrix \<Rightarrow> nat" where
  "size_m M = sum_list (map length M)"

text \<open>\<^verbatim>\<open>M[i, j] = x\<close>\<close>

definition set_entry :: "matrix \<Rightarrow> nat \<Rightarrow> nat \<Rightarrow> real \<Rightarrow> matrix" where
  "set_entry M i j x = M[i := (M ! i)[j := x]]"

text \<open>\<^verbatim>\<open>M[lo:hi, lo:hi] = B\<close> for a block B of hi - lo rows and columns.\<close>

definition set_block :: "matrix \<Rightarrow> nat \<Rightarrow> nat \<Rightarrow> matrix \<Rightarrow> matrix" where
  "set_block M lo hi B =
     map (\<lambda>a. if lo \<le> a \<and> a < hi then take lo (M ! a) @ B ! (a - lo) @ drop hi (M ! a) else M ! a)
       [0..<length M]"

text \<open>
  The two nested loops of \<^verbatim>\<open>getPeakSymmetryOperator\<close> that clear diagonal entries of the
  identity block.
\<close>

definition zero_extra :: "nat \<Rightarrow> nat \<Rightarrow> nat \<Rightarrow> matrix \<Rightarrow> matrix" where
  "zero_extra tWidth extraWidth tHeight subOp =
     fold (\<lambda>i M. fold (\<lambda>j M. let idx = (i + 1) * tWidth + i * extraWidth + j
                              in set_entry M idx idx 0) [0..<extraWidth] M)
       [0..<tHeight - 1] subOp"

text \<open>
  The index ranges of the symmetric sub-rectangle along one axis: the pair (min, max) of
  \<^verbatim>\<open>getPeakSymmetryOperator\<close> for a peak offset p on an axis of the given size. The
  comparisons with \<^verbatim>\<open>(size-1)/2.\<close> are written without the division.
\<close>

definition axis_range :: "nat \<Rightarrow> nat \<Rightarrow> nat \<times> nat" where
  "axis_range p size' =
     (if 2 * p + 1 < size' then (0, 2 * p + 1)
      else if 2 * p + 1 > size' then (2 * p + 1 - size', size')
      else (0, size'))"

definition getPeakSymmetryOperator :: "matrix \<Rightarrow> nat \<times> nat \<Rightarrow> nat \<Rightarrow> nat \<Rightarrow> matrix" where
  "getPeakSymmetryOperator row shape px py =
     (if 2 * px + 1 = snd shape \<and> 2 * py + 1 = fst shape then fliplr (eye (size_m row))
      else
        let (ymin, ymax) = axis_range py (fst shape);
            (xmin, xmax) = axis_range px (snd shape);
            (fpHeight, fpWidth) = shape;
            fpSize = fpWidth * fpHeight;
            tWidth = xmax - xmin;
            tHeight = ymax - ymin;
            extraWidth = fpWidth - tWidth;
            pixels = (tHeight - 1) * fpWidth + tWidth;
            subOp = eye pixels;
            subOp = zero_extra tWidth extraWidth tHeight subOp;
            subOp = fliplr subOp;
            smin = ymin * fpWidth + xmin;
            smax = (ymax - 1) * fpWidth + xmax;
            symmetryOp = zeros fpSize fpSize
        in set_block symmetryOp smin smax subOp)"

text \<open>
  \<^verbatim>\<open>getSymmetryOperator\<close> hands the slice \<^verbatim>\<open>H[n:]\<close>, every row from the n-th on, to
  \<^verbatim>\<open>getPeakSymmetryOperator\<close>.
\<close>

definition getSymmetryOperator :: "matrix \<Rightarrow> footprint \<Rightarrow> matrix list" where
  "getSymmetryOperator H fp =
     map (\<lambda>(n, (px, py)). getPeakSymmetryOperator (drop n H) (height fp, width fp) px py)
       (enumerate 0 (peaks fp))"

text \<open>\<^verbatim>\<open>scipy.sparse.eye(sk.shape[0]) + sk.dot(sk) - 2*sk\<close>\<close>

definition symmetryDiff :: "matrix \<Rightarrow> matrix" where
  "symmetryDiff sk = sub_m (add_m (eye (length sk)) (matmul sk sk)) (scale_m 2 sk)"

definition getSymmetryDiffOp :: "matrix \<Rightarrow> footprint \<Rightarrow> matrix list" where
  "getSymmetryDiffOp H fp = map symmetryDiff (getSymmetryOperator H fp)"

text \<open>
  The difference operator in the words of the specification, with the transpose of S in
  the middle term.
\<close>

definition symmetryDiff_spec :: "matrix \<Rightarrow> matrix" where
  "symmetryDiff_spec S = sub_m (add_m (eye (length S)) (matmul (transpose_m S) S)) (scale_m 2 S)"

section \<open>The symmetry penalty\<close>

text \<open>
  \<^verbatim>\<open>diffOp[k].dot(H[k])\<close>: the product of an operator with a row. numpy raises
  \<^verbatim>\<open>ValueError\<close> unless the operator has as many columns as the row has entries.
\<close>

definition dot_row :: "matrix \<Rightarrow> vector \<Rightarrow> error + vector" where
  "dot_row d v = (if list_all (\<lambda>r. length r = length v) d then Inr (matvec d v) else Inl ValueError)"

text \<open>
  \<^verbatim>\<open>Hdiff[k] = r\<close>: the assignment of a vector to a row. A vector as long as the row is
  stored, a vector of one entry is broadcast over the row, any other length raises
  \<^verbatim>\<open>ValueError\<close>.
\<close>

definition set_row :: "matrix \<Rightarrow> nat \<Rightarrow> vector \<Rightarrow> error + matrix" where
  "set_row Hdiff k r =
     (let n = length (Hdiff ! k) in
      if length r = n then Inr (Hdiff[k := r])
      else if length r = 1 then Inr (Hdiff[k := replicate n (r ! 0)])
      else Inl ValueError)"

text \<open>
  The loop of \<^verbatim>\<open>getIntensityDiff\<close>, \<^verbatim>\<open>Hdiff[k] = diffOp[k].dot(H[k])\<close>; indexing a row
  that H does not have raises \<^verbatim>\<open>IndexError\<close>, before the product is formed.
\<close>

fun intensityDiff_loop :: "matrix \<Rightarrow> matrix list \<Rightarrow> nat \<Rightarrow> matrix \<Rightarrow> error + matrix" where
  "intensityDiff_loop H [] k Hdiff = Inr Hdiff"
| "intensityDiff_loop H (d # ds) k Hdiff =
     (if k < length H then
        (case dot_row d (H ! k) of
           Inl e \<Rightarrow> Inl e
         | Inr r \<Rightarrow>
             (case set_row Hdiff k r of
                Inl e \<Rightarrow> Inl e
              | Inr Hdiff' \<Rightarrow> intensityDiff_loop H ds (Suc k) Hdiff'))
      else Inl IndexError)"

text \<open>\<^verbatim>\<open>H[-1]\<close>\<close>

definition last_row :: "matrix \<Rightarrow> error + vector" where
  "last_row H = (if H = [] then Inl IndexError else Inr (last H))"

definition getIntensityDiff :: "matrix \<Rightarrow> matrix list \<Rightarrow> real \<Rightarrow> bool \<Rightarrow> error + matrix" where
  "getIntensityDiff H diffOp offset includeBkg =
     (case intensityDiff_loop H diffOp 0 (zeros (length H) (ncols H)) of
        Inl e \<Rightarrow> Inl e
      | Inr Hdiff \<Rightarrow>
          if includeBkg then
            (case last_row H of
               Inl e \<Rightarrow> Inl e
             | Inr r \<Rightarrow> (let bkgOp = map (\<lambda>x. (x - offset)\<^sup>2) r in Inr Hdiff))
          else Inr Hdiff)"

section \<open>Update rules\<close>

text \<open>
  The colour matrix of the multiplicative update before its columns are normalised,
  \<^verbatim>\<open>W * numerator/denom\<close>.
\<close>

definition multiplicativeW :: "matrix \<Rightarrow> matrix \<Rightarrow> matrix \<Rightarrow> error + matrix" where
  "multiplicativeW A W H =
     (let numerator = matmul A (transpose_m H);
          denom = add_scalar (matmul (matmul W H) (transpose_m H)) eps
      in divide_m (mul_m W numerator) denom)"

text \<open>
  \<^verbatim>\<open>normFactor = np.sum(np.abs(W), axis=0); normFactor[normFactor==0] = 1; W = W/normFactor\<close>
\<close>

definition normalizeAbs :: "matrix \<Rightarrow> matrix" where
  "normalizeAbs W = div_cols W (zero_to_one (sum_axis0 (abs_m W)))"

text \<open>
  \<^verbatim>\<open>multiplicativeUpdate\<close>; the footprint argument is not used by the source. The
  optional \<^verbatim>\<open>diffOp\<close> is \<^verbatim>\<open>None\<close> by default.
\<close>

definition multiplicativeUpdate ::
  "matrix \<Rightarrow> matrix \<Rightarrow> matrix \<Rightarrow> real \<Rightarrow> bool \<Rightarrow> real \<Rightarrow> matrix list option \<Rightarrow> error + matrix \<times> matrix" where
  "multiplicativeUpdate A W H offset includeBkg beta diffOp =
     (case multiplicativeW A W H of
        Inl e \<Rightarrow> Inl e
      | Inr W \<Rightarrow>
          (let W = normalizeAbs W;
               numerator = matmul (transpose_m W) A
           in case diffOp of
                Some ops \<Rightarrow>
                  (case getIntensityDiff H ops offset includeBkg of
                     Inl e \<Rightarrow> Inl e
                   | Inr Hdiff \<Rightarrow>
                       (let denom = add_scalar (add_m (matmul (matmul (transpose_m W) W) H)
                                      (scale_m beta Hdiff)) eps
                        in case divide_m (mul_m H numerator) denom of
                             Inl e \<Rightarrow> Inl e
                           | Inr H \<Rightarrow> Inr (W, H)))
              | None \<Rightarrow>
                  (let denom = add_scalar (matmul (matmul (transpose_m W) W) H) eps
                   in case divide_m (mul_m H numerator) denom of
                        Inl e \<Rightarrow> Inl e
                      | Inr H \<Rightarrow> Inr (W, H))))"

text \<open>Any number of iterations, as the loop of \<^verbatim>\<open>MulticolorCalExp.deblend\<close> runs them.\<close>

fun iterate_update ::
  "nat \<Rightarrow> (matrix \<Rightarrow> matrix \<Rightarrow> error + matrix \<times> matrix) \<Rightarrow> matrix \<Rightarrow> matrix \<Rightarrow> error + matrix \<times> matrix" where
  "iterate_update 0 f W H = Inr (W, H)"
| "iterate_update (Suc n) f W H =
     (case f W H of Inl e \<Rightarrow> Inl e | Inr (W', H') \<Rightarrow> iterate_update n f W' H')"

section \<open>The exact inverse update\<close>

text \<open>
  \<^verbatim>\<open>np.linalg.inv\<close> over the reals, by Cramer's rule: the determinant by expansion along
  the first row, the adjugate of cofactors, and the adjugate over the determinant. numpy
  raises \<^verbatim>\<open>LinAlgError\<close> for a matrix that is not square or is singular.
\<close>

definition del_nth :: "nat \<Rightarrow> 'a list \<Rightarrow> 'a list" where
  "del_nth j xs = take j xs @ drop (Suc j) xs"

fun det :: "matrix \<Rightarrow> real" where
  "det [] = 1"
| "det (r # rs) = (\<Sum>j<length r. (- 1) ^ j * r ! j * det (map (del_nth j) rs))"

definition cofactor :: "matrix \<Rightarrow> nat \<Rightarrow> nat \<Rightarrow> real" where
  "cofactor M i j = (- 1) ^ (i + j) * det (map (del_nth j) (del_nth i M))"

definition adjugate :: "matrix \<Rightarrow> matrix" where
  "adjugate M = map (\<lambda>i. map (\<lambda>j. cofactor M j i) [0..<length M]) [0..<length M]"

text \<open>N is the two-sided inverse of the square matrix M.\<close>

definition is_inverse :: "matrix \<Rightarrow> matrix \<Rightarrow> bool" where
  "is_inverse M N =
     (list_all (\<lambda>r. length r = length M) M \<and> length N = length M \<and>
      list_all (\<lambda>r. length r = length M) N \<and>
      matmul M N = eye (length M) \<and> matmul N M = eye (length M))"

text \<open>
  The quotient of the adjugate by a non-zero determinant is the inverse. The function
  checks that it is, so that this is known here without the theory of determinants.
\<close>

definition linalg_inv :: "matrix \<Rightarrow> error + matrix" where
  "linalg_inv M =
     (if \<not> list_all (\<lambda>r. length r = length M) M then Inl LinAlgError
      else if det M = 0 then Inl LinAlgError
      else let N = map (map (\<lambda>x. x / det M)) (adjugate M)
           in if is_inverse M N then Inr N else Inl LinAlgError)"

text \<open>
  \<^verbatim>\<open>inverseUpdate\<close>; the arguments fp, offset and includeBkg are not used by the source,
  and the W that is passed in is overwritten at once. \<^verbatim>\<open>np.dot(H, H.T)+1e-9\<close> adds the
  scalar to every entry.
\<close>

definition inverseUpdate :: "matrix \<Rightarrow> matrix \<Rightarrow> matrix \<Rightarrow> error + matrix \<times> matrix" where
  "inverseUpdate A W H =
     (case linalg_inv (add_scalar (matmul H (transpose_m H)) eps) of
        Inl e \<Rightarrow> Inl e
      | Inr G \<Rightarrow>
          (let W = transpose_m (matmul G (matmul H (transpose_m A)));
               W = normalizeAbs W
           in case linalg_inv (add_scalar (matmul (transpose_m W) W) eps) of
                Inl e \<Rightarrow> Inl e
              | Inr G' \<Rightarrow> Inr (W, matmul G' (matmul (transpose_m W) A))))"

text \<open>
  The update in the words of the specification: the regulariser on the diagonal only,
  W = A.H^t.(H.H^t + eps I)^-1, normalised, and H = (W^t.W + eps I)^-1.W^t.A.
\<close>

definition add_diag :: "matrix \<Rightarrow> real \<Rightarrow> matrix" where
  "add_diag M c = add_m M (scale_m c (eye (length M)))"

definition inverseUpdate_spec :: "matrix \<Rightarrow> matrix \<Rightarrow> matrix \<Rightarrow> error + matrix \<times> matrix" where
  "inverseUpdate_spec A W H =
     (case linalg_inv (add_diag (matmul H (transpose_m H)) eps) of
        Inl e \<Rightarrow> Inl e
      | Inr G \<Rightarrow>
          (let W = normalizeAbs (matmul (matmul A (transpose_m H)) G)
           in case linalg_inv (add_diag (matmul (transpose_m W) W) eps) of
                Inl e \<Rightarrow> Inl e
              | Inr G' \<Rightarrow> Inr (W, matmul G' (matmul (transpose_m W) A))))"

section \<open>Initial estimate\<close>

text \<open>\<^verbatim>\<open>np.mean(fpPixels, axis=0)\<close>\<close>

definition mean_axis0 :: "matrix \<Rightarrow> vector" where
  "mean_axis0 M = map (\<lambda>x. x / real (length M)) (sum_axis0 M)"

text \<open>
  \<^verbatim>\<open>createInitWH\<close>. The per-peak arrays \<^verbatim>\<open>fpPixels\<close> (one flattened template per filter)
  come from the external deblender and are an argument, as is the number of pixels of the
  bounding box; \<^verbatim>\<open>np.linalg.pinv\<close> is a parameter. The mean over an empty list of filters
  is a division by zero.
\<close>

definition initH :: "matrix list \<Rightarrow> nat \<Rightarrow> real \<Rightarrow> bool \<Rightarrow> matrix" where
  "initH fpPixels area offset includeBkg =
     (let H = map mean_axis0 fpPixels @ (if includeBkg then [replicate area 0] else [])
      in if includeBkg then H[length H - 1 := replicate area offset] else H)"

text \<open>The colour matrix of \<^verbatim>\<open>createInitWH\<close> before its columns are normalised.\<close>

definition initW :: "(matrix \<Rightarrow> matrix) \<Rightarrow> matrix \<Rightarrow> matrix list \<Rightarrow> nat \<Rightarrow> real \<Rightarrow> bool \<Rightarrow> matrix" where
  "initW pinv data' fpPixels area offset includeBkg =
     matmul data' (pinv (initH fpPixels area offset includeBkg))"

definition createInitWH ::
  "(matrix \<Rightarrow> matrix) \<Rightarrow> matrix \<Rightarrow> matrix list \<Rightarrow> nat \<Rightarrow> real \<Rightarrow> bool \<Rightarrow> error + matrix \<times> matrix" where
  "createInitWH pinv data' fpPixels area offset includeBkg =
     (if list_ex (\<lambda>M. M = []) fpPixels then Inl NonFinite
      else
        let H = initH fpPixels area offset includeBkg;
            W = matmul data' (pinv H);
            normFactor = sum_axis0 W;
            normFactor = zero_to_one normFactor;
            W = div_cols W normFactor;
            H = map2 (\<lambda>r c. map (\<lambda>x. x * c) r) H normFactor
        in Inr (W, H))"

text \<open>
  The indices that the loops of \<^verbatim>\<open>getPeakSymmetryOperator\<close> visit:
  \<^verbatim>\<open>idx = (i+1)*tWidth+(i*extraWidth)+j\<close> for i in \<^verbatim>\<open>range(0,tHeight-1)\<close> and j in
  \<^verbatim>\<open>range(extraWidth)\<close>.
\<close>

definition zeroed :: "nat \<Rightarrow> nat \<Rightarrow> nat \<Rightarrow> nat \<Rightarrow> bool" where
  "zeroed tWidth extraWidth tHeight c =
     (\<exists>i<tHeight - 1. \<exists>j<extraWidth. c = (i + 1) * tWidth + i * extraWidth + j)"

section \<open>Point symmetry of an intensity row\<close>

text \<open>
  The mirror image of the pixel (y, x) about the peak (py, px) is (2 py - y, 2 px - x);
  it lies in the bounding box of the given shape or it does not.
\<close>

definition mirror_in_box :: "nat \<times> nat \<Rightarrow> nat \<Rightarrow> nat \<Rightarrow> nat \<Rightarrow> nat \<Rightarrow> bool" where
  "mirror_in_box shape px py y x =
     (y \<le> 2 * py \<and> 2 * py - y < fst shape \<and> x \<le> 2 * px \<and> 2 * px - x < snd shape)"

text \<open>
  A flattened row v is point-symmetric about the peak when every pixel whose mirror image
  lies in the bounding box has the value of its mirror image. It vanishes off the mirror
  when it is zero at every pixel whose mirror image falls outside the bounding box.
\<close>

definition point_symmetric :: "nat \<times> nat \<Rightarrow> nat \<Rightarrow> nat \<Rightarrow> vector \<Rightarrow> bool" where
  "point_symmetric shape px py v =
     list_all (\<lambda>y. list_all (\<lambda>x. \<not> mirror_in_box shape px py y x \<or>
        v ! (y * snd shape + x) = v ! ((2 * py - y) * snd shape + (2 * px - x))) [0..<snd shape])
       [0..<fst shape]"

definition vanishes_off_mirror :: "nat \<times> nat \<Rightarrow> nat \<Rightarrow> nat \<Rightarrow> vector \<Rightarrow> bool" where
  "vanishes_off_mirror shape px py v =
     list_all (\<lambda>y. list_all (\<lambda>x. mirror_in_box shape px py y x \<or> v ! (y * snd shape + x) = 0)
        [0..<snd shape]) [0..<fst shape]"

section \<open>Non-negative matrices\<close>

definition nonneg :: "matrix \<Rightarrow> bool" where
  "nonneg M = list_all (list_all (\<lambda>x. 0 \<le> x)) M"

section \<open>Theorems\<close>

lemma length_map2_m: "length (map2_m f A B) = min (length A) (length B)"
  by (simp add: map2_m_def)

lemma nth_map2_m:
  "i < length A \<Longrightarrow> i < length B \<Longrightarrow> map2_m f A B ! i = map2 f (A ! i) (B ! i)"
  by (simp add: map2_m_def)

lemma sum_list_sum_lessThan: "sum_list xs = (\<Sum>k<length xs. xs ! k)"
  by (simp add: sum_list_sum_nth atLeast0LessThan)

lemma ncols_is_mat: "is_mat r c M \<Longrightarrow> 0 < r \<Longrightarrow> ncols M = c"
  by (cases M) (auto simp: is_mat_def ncols_def)

lemma length_matmul: "length (matmul A B) = length A"
  by (simp add: matmul_def)

lemma nth_matmul:
  "i < length A \<Longrightarrow> matmul A B ! i = map (\<lambda>j. \<Sum>k<length (A ! i). A ! i ! k * B ! k ! j) [0..<ncols B]"
  by (simp add: matmul_def)

subsection \<open>Shapes and entries\<close>

lemma is_matD: "is_mat r c M \<Longrightarrow> length M = r" "is_mat r c M \<Longrightarrow> i < r \<Longrightarrow> length (M ! i) = c"
  by (auto simp: is_mat_def)

lemma is_mat_transpose:
  assumes "is_mat r c M" "0 < r"
  shows "is_mat c r (transpose_m M)"
  using assms by (simp add: is_mat_def transpose_m_def ncols_is_mat [OF assms])

lemma nth_transpose:
  assumes "is_mat r c M" "0 < r" "j < c"
  shows "transpose_m M ! j = map (\<lambda>row. row ! j) M"
  using assms by (simp add: transpose_m_def ncols_is_mat [OF assms(1,2)])

lemma nth_nth_transpose:
  assumes "is_mat r c M" "0 < r" "j < c" "i < r"
  shows "transpose_m M ! j ! i = M ! i ! j"
  using assms by (simp add: nth_transpose [OF assms(1,2,3)] is_mat_def)

lemma is_mat_matmul:
  assumes "is_mat r k A" "is_mat k c B" "0 < k"
  shows "is_mat r c (matmul A B)"
  using assms by (simp add: is_mat_def matmul_def ncols_is_mat [OF assms(2,3)])

lemma nth_nth_matmul:
  assumes "is_mat r k A" "is_mat k c B" "0 < k" "i < r" "j < c"
  shows "matmul A B ! i ! j = (\<Sum>t<k. A ! i ! t * B ! t ! j)"
  using assms by (simp add: is_mat_def matmul_def ncols_is_mat [OF assms(2,3)])

lemma is_mat_map2_m:
  "is_mat r c A \<Longrightarrow> is_mat r c B \<Longrightarrow> is_mat r c (map2_m f A B)"
  by (simp add: is_mat_def map2_m_def)

lemma nth_nth_map2_m:
  "is_mat r c A \<Longrightarrow> is_mat r c B \<Longrightarrow> i < r \<Longrightarrow> j < c \<Longrightarrow> map2_m f A B ! i ! j = f (A ! i ! j) (B ! i ! j)"
  by (simp add: is_mat_def map2_m_def)

lemma is_mat_map_map: "is_mat r c M \<Longrightarrow> is_mat r c (map (map f) M)"
  by (simp add: is_mat_def)

lemma nth_nth_map_map: "is_mat r c M \<Longrightarrow> i < r \<Longrightarrow> j < c \<Longrightarrow> map (map f) M ! i ! j = f (M ! i ! j)"
  by (simp add: is_mat_def)

lemma length_sum_axis0: "is_mat r c M \<Longrightarrow> 0 < r \<Longrightarrow> length (sum_axis0 M) = c"
  by (simp add: sum_axis0_def ncols_is_mat)

lemma nth_sum_axis0:
  assumes "is_mat r c M" "0 < r" "j < c"
  shows "sum_axis0 M ! j = (\<Sum>i<r. M ! i ! j)"
  using assms by (simp add: sum_axis0_def ncols_is_mat [OF assms(1,2)] is_mat_def)

lemma is_mat_div_cols: "is_mat r c M \<Longrightarrow> length v = c \<Longrightarrow> is_mat r c (div_cols M v)"
  by (simp add: is_mat_def div_cols_def)

lemma nth_nth_div_cols:
  "is_mat r c M \<Longrightarrow> length v = c \<Longrightarrow> i < r \<Longrightarrow> j < c \<Longrightarrow> div_cols M v ! i ! j = M ! i ! j / v ! j"
  by (simp add: is_mat_def div_cols_def)

lemma nonneg_nth: "nonneg M \<Longrightarrow> is_mat r c M \<Longrightarrow> i < r \<Longrightarrow> j < c \<Longrightarrow> 0 \<le> M ! i ! j"
proof -
  assume a: "nonneg M" "is_mat r c M" "i < r" "j < c"
  then have "M ! i \<in> set M" "M ! i ! j \<in> set (M ! i)" by (simp_all add: is_mat_def)
  with a(1) show ?thesis unfolding nonneg_def list_all_iff by blast
qed

lemma nonnegI: "is_mat r c M \<Longrightarrow> (\<And>i j. i < r \<Longrightarrow> j < c \<Longrightarrow> 0 \<le> M ! i ! j) \<Longrightarrow> nonneg M"
  unfolding nonneg_def is_mat_def list_all_iff by (metis in_set_conv_nth)

subsection \<open>The multiplicative update\<close>

lemma not_has_zero:
  assumes B: "is_mat r c B" and nz: "\<And>i j. i < r \<Longrightarrow> j < c \<Longrightarrow> B ! i ! j \<noteq> 0"
  shows "\<not> has_zero B"
proof
  assume "has_zero B"
  then obtain row x where rx: "row \<in> set B" "x \<in> set row" "x = 0"
    unfolding has_zero_def list_ex_iff by blast
  from rx(1) obtain i where i: "i < length B" "B ! i = row" unfolding in_set_conv_nth by blast
  from rx(2) obtain j where j: "j < length row" "row ! j = x" unfolding in_set_conv_nth by blast
  have "i < r" "j < c" using B i j by (auto simp: is_mat_def)
  then have "B ! i ! j \<noteq> 0" by (rule nz)
  then show False using i j rx(3) by simp
qed

lemma divide_m_Inr: "divide_m A B = Inr Q \<Longrightarrow> Q = div_m A B \<and> \<not> has_zero B"
  by (simp add: divide_m_def split: if_splits)

lemma multiplicativeW_Inr:
  "multiplicativeW A W H = Inr Wm \<Longrightarrow>
   Wm = div_m (mul_m W (matmul A (transpose_m H))) (add_scalar (matmul (matmul W H) (transpose_m H)) eps)"
  by (simp add: multiplicativeW_def Let_def divide_m_def split: if_splits)

lemma is_mat_multiplicativeW:
  assumes A: "is_mat B P A" and W: "is_mat B K W" and H: "is_mat K P H" and K: "0 < K" and P: "0 < P"
    and r: "multiplicativeW A W H = Inr Wm"
  shows "is_mat B K Wm"
proof -
  have Ht: "is_mat P K (transpose_m H)" using H K by (rule is_mat_transpose)
  have n: "is_mat B K (matmul A (transpose_m H))" using A Ht P by (rule is_mat_matmul)
  have WH: "is_mat B P (matmul W H)" using W H K by (rule is_mat_matmul)
  have d: "is_mat B K (matmul (matmul W H) (transpose_m H))" using WH Ht P by (rule is_mat_matmul)
  show ?thesis
    unfolding multiplicativeW_Inr [OF r] div_m_def mul_m_def add_scalar_def
    by (intro is_mat_map2_m is_mat_map_map n d W)
qed

lemma is_mat_normalizeAbs:
  assumes "is_mat B K W" "0 < B"
  shows "is_mat B K (normalizeAbs W)"
proof -
  have a: "is_mat B K (abs_m W)" unfolding abs_m_def using assms(1) by (rule is_mat_map_map)
  have "length (zero_to_one (sum_axis0 (abs_m W))) = K"
    using length_sum_axis0 [OF a assms(2)] by (simp add: zero_to_one_def)
  then show ?thesis unfolding normalizeAbs_def using assms(1) by (intro is_mat_div_cols)
qed

lemma nth_normalizeAbs:
  assumes W: "is_mat B K W" and B: "0 < B" and i: "i < B" and j: "j < K"
  shows "normalizeAbs W ! i ! j =
           W ! i ! j / (if (\<Sum>i<B. \<bar>W ! i ! j\<bar>) = 0 then 1 else (\<Sum>i<B. \<bar>W ! i ! j\<bar>))"
proof -
  have a: "is_mat B K (abs_m W)" unfolding abs_m_def using W by (rule is_mat_map_map)
  have l: "length (sum_axis0 (abs_m W)) = K" using a B by (rule length_sum_axis0)
  have s: "sum_axis0 (abs_m W) ! j = (\<Sum>i<B. \<bar>W ! i ! j\<bar>)"
    using nth_sum_axis0 [OF a B j] W j by (simp add: abs_m_def nth_nth_map_map)
  have l': "length (zero_to_one (sum_axis0 (abs_m W))) = K" using l by (simp add: zero_to_one_def)
  show ?thesis
    unfolding normalizeAbs_def
    using nth_nth_div_cols [OF W l' i j] l j s by (simp add: zero_to_one_def)
qed

lemma multiplicativeUpdate_fst:
  "multiplicativeUpdate A W H offset includeBkg beta diffOp = Inr (W', H') \<Longrightarrow>
   \<exists>Wm. multiplicativeW A W H = Inr Wm \<and> W' = normalizeAbs Wm"
  by (auto simp: multiplicativeUpdate_def Let_def split: option.splits sum.splits)

lemma normalizeAbs_col:
  assumes W: "is_mat B K W" and B: "0 < B" and j: "j < K"
  shows "((\<Sum>i<B. \<bar>W ! i ! j\<bar>) \<noteq> 0 \<longrightarrow> (\<Sum>i<B. \<bar>normalizeAbs W ! i ! j\<bar>) = 1) \<and>
         ((\<Sum>i<B. \<bar>W ! i ! j\<bar>) = 0 \<longrightarrow> (\<forall>i<B. normalizeAbs W ! i ! j = W ! i ! j))"
proof -
  let ?s = "\<Sum>i<B. \<bar>W ! i ! j\<bar>"
  have s0: "0 \<le> ?s" by (rule sum_nonneg) simp
  have e: "\<And>i. i < B \<Longrightarrow> normalizeAbs W ! i ! j = W ! i ! j / (if ?s = 0 then 1 else ?s)"
    using nth_normalizeAbs [OF W B _ j] by simp
  show ?thesis
  proof (cases "?s = 0")
    case True
    then show ?thesis using e by simp
  next
    case False
    have "(\<Sum>i<B. \<bar>normalizeAbs W ! i ! j\<bar>) = (\<Sum>i<B. \<bar>W ! i ! j\<bar> / ?s)"
      using e False s0 by (intro sum.cong) (simp_all add: abs_divide)
    also have "\<dots> = ?s / ?s" by (rule sum_divide_distrib [symmetric])
    also have "\<dots> = 1" using False by simp
    finally have "(\<Sum>i<B. \<bar>normalizeAbs W ! i ! j\<bar>) = 1" .
    with False show ?thesis by blast
  qed
qed

lemma normalizeAbs_col_nonneg:
  assumes W: "is_mat B K W" and B: "0 < B" and j: "j < K" and nn: "\<And>i. i < B \<Longrightarrow> 0 \<le> W ! i ! j"
  shows "((\<Sum>i<B. W ! i ! j) \<noteq> 0 \<longrightarrow> (\<Sum>i<B. normalizeAbs W ! i ! j) = 1) \<and>
         ((\<Sum>i<B. W ! i ! j) = 0 \<longrightarrow> (\<forall>i<B. normalizeAbs W ! i ! j = W ! i ! j))"
proof -
  have eq: "(\<Sum>i<B. \<bar>W ! i ! j\<bar>) = (\<Sum>i<B. W ! i ! j)"
    using nn by (intro sum.cong) simp_all
  have e: "\<And>i. i < B \<Longrightarrow> normalizeAbs W ! i ! j = W ! i ! j / (if (\<Sum>i<B. W ! i ! j) = 0 then 1 else (\<Sum>i<B. W ! i ! j))"
    using nth_normalizeAbs [OF W B _ j] eq by simp
  show ?thesis
  proof (cases "(\<Sum>i<B. W ! i ! j) = 0")
    case True
    then show ?thesis using e by simp
  next
    case False
    have "(\<Sum>i<B. normalizeAbs W ! i ! j) = (\<Sum>i<B. W ! i ! j / (\<Sum>i<B. W ! i ! j))"
      using e False by (intro sum.cong) simp_all
    also have "\<dots> = (\<Sum>i<B. W ! i ! j) / (\<Sum>i<B. W ! i ! j)" by (rule sum_divide_distrib [symmetric])
    also have "\<dots> = 1" using False by simp
    finally have "(\<Sum>i<B. normalizeAbs W ! i ! j) = 1" .
    with False show ?thesis by blast
  qed
qed

lemma nonneg_transpose:
  assumes "is_mat r c M" "0 < r" "nonneg M"
  shows "nonneg (transpose_m M)"
proof (rule nonnegI [OF is_mat_transpose [OF assms(1,2)]])
  fix i j assume "i < c" "j < r"
  then show "0 \<le> transpose_m M ! i ! j"
    using nonneg_nth [OF assms(3,1)] by (simp add: nth_nth_transpose [OF assms(1,2)])
qed

lemma nonneg_matmul:
  assumes A: "is_mat r k A" and B: "is_mat k c B" and k: "0 < k" and nA: "nonneg A" and nB: "nonneg B"
  shows "nonneg (matmul A B)"
proof (rule nonnegI [OF is_mat_matmul [OF A B k]])
  fix i j assume ij: "i < r" "j < c"
  have "0 \<le> (\<Sum>t<k. A ! i ! t * B ! t ! j)"
    using nonneg_nth [OF nA A ij(1)] nonneg_nth [OF nB B _ ij(2)]
    by (intro sum_nonneg mult_nonneg_nonneg) simp_all
  then show "0 \<le> matmul A B ! i ! j" by (simp add: nth_nth_matmul [OF A B k ij])
qed

lemma nonneg_update_quotient:
  assumes X: "is_mat r c X" and N: "is_mat r c N" and D: "is_mat r c D"
    and nX: "nonneg X" and nN: "nonneg N" and nD: "nonneg D"
  shows "\<exists>Q. divide_m (mul_m X N) (add_scalar D eps) = Inr Q \<and> is_mat r c Q \<and> nonneg Q"
proof -
  have m: "is_mat r c (mul_m X N)" unfolding mul_m_def using X N by (rule is_mat_map2_m)
  have a: "is_mat r c (add_scalar D eps)" unfolding add_scalar_def using D by (rule is_mat_map_map)
  have s: "is_mat r c (div_m (mul_m X N) (add_scalar D eps))"
    unfolding div_m_def using m a by (rule is_mat_map2_m)
  have pos: "0 < add_scalar D eps ! i ! j" if ij: "i < r" "j < c" for i j
  proof -
    have "add_scalar D eps ! i ! j = D ! i ! j + eps"
      unfolding add_scalar_def by (rule nth_nth_map_map [OF D ij])
    then show ?thesis using nonneg_nth [OF nD D ij] by (simp add: eps_def add_nonneg_pos)
  qed
  have nz: "\<not> has_zero (add_scalar D eps)"
    using a pos by (intro not_has_zero [OF a]) fastforce
  have "nonneg (div_m (mul_m X N) (add_scalar D eps))"
  proof (rule nonnegI [OF s])
    fix i j assume ij: "i < r" "j < c"
    have e: "div_m (mul_m X N) (add_scalar D eps) ! i ! j = X ! i ! j * N ! i ! j / add_scalar D eps ! i ! j"
    proof -
      have "div_m (mul_m X N) (add_scalar D eps) ! i ! j =
              mul_m X N ! i ! j / add_scalar D eps ! i ! j"
        unfolding div_m_def by (rule nth_nth_map2_m [OF m a ij])
      also have "mul_m X N ! i ! j = X ! i ! j * N ! i ! j"
        unfolding mul_m_def by (rule nth_nth_map2_m [OF X N ij])
      finally show ?thesis .
    qed
    show "0 \<le> div_m (mul_m X N) (add_scalar D eps) ! i ! j"
      unfolding e using nonneg_nth [OF nX X ij] nonneg_nth [OF nN N ij] pos [OF ij]
      by (intro divide_nonneg_pos mult_nonneg_nonneg)
  qed
  with s nz show ?thesis by (simp add: divide_m_def)
qed

lemma nonneg_normalizeAbs:
  assumes W: "is_mat B K W" and B: "0 < B" and nW: "nonneg W"
  shows "nonneg (normalizeAbs W)"
proof (rule nonnegI [OF is_mat_normalizeAbs [OF W B]])
  fix i j assume ij: "i < B" "j < K"
  have "0 \<le> (\<Sum>i<B. \<bar>W ! i ! j\<bar>)" by (rule sum_nonneg) simp
  then show "0 \<le> normalizeAbs W ! i ! j"
    unfolding nth_normalizeAbs [OF W B ij] using nonneg_nth [OF nW W ij]
    by (auto intro!: divide_nonneg_nonneg)
qed

lemma multiplicativeW_nonneg:
  assumes A: "is_mat B P A" and W: "is_mat B K W" and H: "is_mat K P H" and K: "0 < K" and P: "0 < P"
    and nA: "nonneg A" and nW: "nonneg W" and nH: "nonneg H"
  shows "\<exists>Wm. multiplicativeW A W H = Inr Wm \<and> is_mat B K Wm \<and> nonneg Wm"
proof -
  have Ht: "is_mat P K (transpose_m H)" using H K by (rule is_mat_transpose)
  have nHt: "nonneg (transpose_m H)" using H K nH by (rule nonneg_transpose)
  have n: "is_mat B K (matmul A (transpose_m H))" using A Ht P by (rule is_mat_matmul)
  have nn: "nonneg (matmul A (transpose_m H))" using A Ht P nA nHt by (rule nonneg_matmul)
  have WH: "is_mat B P (matmul W H)" using W H K by (rule is_mat_matmul)
  have nWH: "nonneg (matmul W H)" using W H K nW nH by (rule nonneg_matmul)
  have d: "is_mat B K (matmul (matmul W H) (transpose_m H))" using WH Ht P by (rule is_mat_matmul)
  have nd: "nonneg (matmul (matmul W H) (transpose_m H))" using WH Ht P nWH nHt by (rule nonneg_matmul)
  show ?thesis
    unfolding multiplicativeW_def Let_def by (rule nonneg_update_quotient [OF W n d nW nn nd])
qed

lemma multiplicativeUpdate_None_nonneg:
  assumes A: "is_mat B P A" and W: "is_mat B K W" and H: "is_mat K P H"
    and B: "0 < B" and K: "0 < K" and P: "0 < P"
    and nA: "nonneg A" and nW: "nonneg W" and nH: "nonneg H"
  shows "\<exists>W' H'. multiplicativeUpdate A W H offset includeBkg beta None = Inr (W', H') \<and>
           is_mat B K W' \<and> is_mat K P H' \<and> nonneg W' \<and> nonneg H'"
proof -
  obtain Wm where Wm: "multiplicativeW A W H = Inr Wm" "is_mat B K Wm" "nonneg Wm"
    using multiplicativeW_nonneg [OF A W H K P nA nW nH] by blast
  let ?W = "normalizeAbs Wm"
  have W': "is_mat B K ?W" using Wm(2) B by (rule is_mat_normalizeAbs)
  have nW': "nonneg ?W" using Wm(2) B Wm(3) by (rule nonneg_normalizeAbs)
  have Wt: "is_mat K B (transpose_m ?W)" using W' B by (rule is_mat_transpose)
  have nWt: "nonneg (transpose_m ?W)" using W' B nW' by (rule nonneg_transpose)
  have N: "is_mat K P (matmul (transpose_m ?W) A)" using Wt A B by (rule is_mat_matmul)
  have nN: "nonneg (matmul (transpose_m ?W) A)" using Wt A B nWt nA by (rule nonneg_matmul)
  have G: "is_mat K K (matmul (transpose_m ?W) ?W)" using Wt W' B by (rule is_mat_matmul)
  have nG: "nonneg (matmul (transpose_m ?W) ?W)" using Wt W' B nWt nW' by (rule nonneg_matmul)
  have D: "is_mat K P (matmul (matmul (transpose_m ?W) ?W) H)" using G H K by (rule is_mat_matmul)
  have nD: "nonneg (matmul (matmul (transpose_m ?W) ?W) H)" using G H K nG nH by (rule nonneg_matmul)
  obtain Q where Q: "divide_m (mul_m H (matmul (transpose_m ?W) A))
      (add_scalar (matmul (matmul (transpose_m ?W) ?W) H) eps) = Inr Q" "is_mat K P Q" "nonneg Q"
    using nonneg_update_quotient [OF H N D nH nN nD] by blast
  show ?thesis
    using W' nW' Q Wm(1) by (simp add: multiplicativeUpdate_def Let_def)
qed

lemma iterate_multiplicativeUpdate_None_nonneg:
  assumes A: "is_mat B P A" and B: "0 < B" and K: "0 < K" and P: "0 < P" and nA: "nonneg A"
  shows "is_mat B K W \<Longrightarrow> is_mat K P H \<Longrightarrow> nonneg W \<Longrightarrow> nonneg H \<Longrightarrow>
         \<exists>W' H'. iterate_update n (\<lambda>W H. multiplicativeUpdate A W H offset includeBkg beta None) W H = Inr (W', H') \<and>
           is_mat B K W' \<and> is_mat K P H' \<and> nonneg W' \<and> nonneg H'"
proof (induction n arbitrary: W H)
  case 0
  then show ?case by simp
next
  case (Suc n)
  obtain W1 H1 where s: "multiplicativeUpdate A W H offset includeBkg beta None = Inr (W1, H1)"
    "is_mat B K W1" "is_mat K P H1" "nonneg W1" "nonneg H1"
    using multiplicativeUpdate_None_nonneg [OF A Suc.prems(1,2) B K P nA Suc.prems(3,4)] by blast
  from Suc.IH [OF s(2,3,4,5)] show ?case by (simp add: s(1))
qed

lemma set_row_Inr:
  assumes "set_row Hd k r = Inr Hd'"
  shows "length Hd' = length Hd \<and> (\<forall>i. i \<noteq> k \<longrightarrow> Hd' ! i = Hd ! i)"
  using assms by (auto simp: set_row_def Let_def split: if_splits)

lemma intensityDiff_loop_Inr:
  "intensityDiff_loop H ds k Hd = Inr Hd' \<Longrightarrow>
   length Hd' = length Hd \<and> (\<forall>i. i < k \<or> k + length ds \<le> i \<longrightarrow> Hd' ! i = Hd ! i)"
proof (induction ds arbitrary: k Hd)
  case Nil
  then show ?case by simp
next
  case (Cons d ds)
  from Cons.prems obtain r Hd1 where
    s: "dot_row d (H ! k) = Inr r" "set_row Hd k r = Inr Hd1"
      "intensityDiff_loop H ds (Suc k) Hd1 = Inr Hd'"
    by (auto split: if_splits sum.splits)
  note a = set_row_Inr [OF s(2)]
  note b = Cons.IH [OF s(3)]
  have "\<forall>i. i < k \<or> k + length (d # ds) \<le> i \<longrightarrow> Hd' ! i = Hd ! i"
    using a b by auto
  with a b show ?case by simp
qed

lemma is_mat_list_all: "is_mat r c M \<Longrightarrow> list_all (\<lambda>row. length row = c) M"
  by (simp add: is_mat_def list_all_length)

lemma intensityDiff_loop_returns:
  assumes H: "is_mat K P H"
  shows "k + length ds \<le> K \<Longrightarrow> list_all (is_mat P P) ds \<Longrightarrow> is_mat K P Hd \<Longrightarrow>
         \<exists>Hd'. intensityDiff_loop H ds k Hd = Inr Hd' \<and> is_mat K P Hd'"
proof (induction ds arbitrary: k Hd)
  case Nil
  then show ?case by simp
next
  case (Cons d ds)
  from Cons.prems have k: "k < K" and le: "Suc k + length ds \<le> K"
    and d: "is_mat P P d" and ds: "list_all (is_mat P P) ds" by simp_all
  have lH: "length H = K" "length (H ! k) = P" using H k by (simp_all add: is_mat_def)
  have dr: "dot_row d (H ! k) = Inr (matvec d (H ! k))"
    using is_mat_list_all [OF d] by (simp add: dot_row_def lH)
  have lm: "length (matvec d (H ! k)) = P" using d by (simp add: matvec_def is_mat_def)
  have lk: "length (Hd ! k) = P" using Cons.prems(3) k by (simp add: is_mat_def)
  have sr: "set_row Hd k (matvec d (H ! k)) = Inr (Hd[k := matvec d (H ! k)])"
    by (simp add: set_row_def lm lk)
  have m: "is_mat K P (Hd[k := matvec d (H ! k)])"
    unfolding is_mat_def
  proof (intro conjI allI impI)
    show "length (Hd[k := matvec d (H ! k)]) = K" using Cons.prems(3) by (simp add: is_mat_def)
  next
    fix i assume i: "i < K"
    then have "i < length Hd" using Cons.prems(3) by (simp add: is_mat_def)
    then show "length (Hd[k := matvec d (H ! k)] ! i) = P"
      using Cons.prems(3) lm i by (cases "i = k") (simp_all add: is_mat_def)
  qed
  from Cons.IH [OF le ds m] show ?case using k by (simp add: lH dr sr)
qed

lemma createInitWH_fst:
  assumes "createInitWH pinv data' fpPixels area offset includeBkg = Inr (W1, H1)"
  shows "W1 = div_cols (initW pinv data' fpPixels area offset includeBkg)
               (zero_to_one (sum_axis0 (initW pinv data' fpPixels area offset includeBkg)))"
  using assms by (simp add: createInitWH_def initW_def Let_def split: if_splits)

lemma normalizeSum_col:
  assumes W: "is_mat B K W" and B: "0 < B" and j: "j < K"
  shows "((\<Sum>i<B. W ! i ! j) \<noteq> 0 \<longrightarrow> (\<Sum>i<B. div_cols W (zero_to_one (sum_axis0 W)) ! i ! j) = 1) \<and>
         ((\<Sum>i<B. W ! i ! j) = 0 \<longrightarrow> (\<forall>i<B. div_cols W (zero_to_one (sum_axis0 W)) ! i ! j = W ! i ! j))"
proof -
  let ?s = "\<Sum>i<B. W ! i ! j"
  let ?N = "div_cols W (zero_to_one (sum_axis0 W))"
  have l: "length (sum_axis0 W) = K" using W B by (rule length_sum_axis0)
  have l': "length (zero_to_one (sum_axis0 W)) = K" using l by (simp add: zero_to_one_def)
  have s: "sum_axis0 W ! j = ?s" using W B j by (rule nth_sum_axis0)
  have e: "\<And>i. i < B \<Longrightarrow> ?N ! i ! j = W ! i ! j / (if ?s = 0 then 1 else ?s)"
    using nth_nth_div_cols [OF W l' _ j] l j s by (simp add: zero_to_one_def)
  show ?thesis
  proof (cases "?s = 0")
    case True
    then show ?thesis using e by simp
  next
    case False
    have "(\<Sum>i<B. ?N ! i ! j) = (\<Sum>i<B. W ! i ! j / ?s)"
      using e False by (intro sum.cong) simp_all
    also have "\<dots> = ?s / ?s" by (rule sum_divide_distrib [symmetric])
    also have "\<dots> = 1" using False by simp
    finally have "(\<Sum>i<B. ?N ! i ! j) = 1" .
    with False show ?thesis by blast
  qed
qed


subsection \<open>The entries of the symmetry operator\<close>

lemma is_mat_eye: "is_mat n n (eye n)"
  by (simp add: is_mat_def eye_def)

lemma nth_nth_eye: "i < n \<Longrightarrow> j < n \<Longrightarrow> eye n ! i ! j = (if i = j then 1 else 0)"
  by (simp add: eye_def)

lemma is_mat_zeros: "is_mat r c (zeros r c)"
  by (simp add: is_mat_def zeros_def)

lemma nth_nth_zeros: "i < r \<Longrightarrow> j < c \<Longrightarrow> zeros r c ! i ! j = 0"
  by (simp add: zeros_def)

lemma is_mat_fliplr: "is_mat r c M \<Longrightarrow> is_mat r c (fliplr M)"
  by (simp add: is_mat_def fliplr_def)

lemma nth_nth_fliplr:
  "is_mat r c M \<Longrightarrow> i < r \<Longrightarrow> j < c \<Longrightarrow> fliplr M ! i ! j = M ! i ! (c - 1 - j)"
  by (simp add: is_mat_def fliplr_def rev_nth)

lemma is_mat_set_entry: "is_mat r c M \<Longrightarrow> is_mat r c (set_entry M i j x)"
  by (cases "i < length M") (auto simp: is_mat_def set_entry_def nth_list_update)

lemma nth_nth_set_entry:
  "is_mat r c M \<Longrightarrow> a < r \<Longrightarrow> b < c \<Longrightarrow>
   set_entry M i j x ! a ! b = (if a = i \<and> b = j then x else M ! a ! b)"
  by (cases "i < length M") (auto simp: is_mat_def set_entry_def nth_list_update)

lemma fold_zero_diag:
  assumes "is_mat n n M"
  shows "is_mat n n (fold (\<lambda>j M. set_entry M (g j) (g j) 0) js M) \<and>
         (\<forall>c<n. \<forall>d<n. fold (\<lambda>j M. set_entry M (g j) (g j) 0) js M ! c ! d =
            (if c = d \<and> c \<in> g ` set js then 0 else M ! c ! d))"
  using assms
proof (induction js arbitrary: M)
  case Nil
  then show ?case by simp
next
  case (Cons j js)
  have m: "is_mat n n (set_entry M (g j) (g j) 0)" using Cons.prems by (rule is_mat_set_entry)
  from Cons.IH [OF m] show ?case
    by (auto simp: nth_nth_set_entry [OF Cons.prems])
qed

lemma fold_fold_zero_diag:
  assumes "is_mat n n M"
  shows "is_mat n n (fold (\<lambda>i M. fold (\<lambda>j M. set_entry M (g i j) (g i j) 0) js M) is M) \<and>
         (\<forall>c<n. \<forall>d<n. fold (\<lambda>i M. fold (\<lambda>j M. set_entry M (g i j) (g i j) 0) js M) is M ! c ! d =
            (if c = d \<and> (\<exists>i\<in>set is. \<exists>j\<in>set js. c = g i j) then 0 else M ! c ! d))"
  using assms
proof (induction "is" arbitrary: M)
  case Nil
  then show ?case by simp
next
  case (Cons i "is")
  note f = fold_zero_diag [OF Cons.prems, of "g i" js]
  from Cons.IH [OF f [THEN conjunct1]] f [THEN conjunct2] show ?case
    by (auto simp: image_iff)
qed

lemma zero_extra_eye:
  "is_mat n n (zero_extra tW eW tH (eye n)) \<and>
   (\<forall>c<n. \<forall>d<n. zero_extra tW eW tH (eye n) ! c ! d =
      (if c = d \<and> \<not> zeroed tW eW tH c then 1 else 0))"
proof -
  note f = fold_fold_zero_diag [OF is_mat_eye, of n "\<lambda>i j. (i + 1) * tW + i * eW + j" "[0..<eW]" "[0..<tH - 1]"]
  show ?thesis
    unfolding zero_extra_def Let_def zeroed_def
    using f by (auto simp: nth_nth_eye)
qed

lemma is_mat_set_block:
  assumes M: "is_mat N N M" and B: "is_mat (hi - lo) (hi - lo) B" and lo: "lo \<le> hi" and hi: "hi \<le> N"
  shows "is_mat N N (set_block M lo hi B)"
  using assms by (auto simp: is_mat_def set_block_def)

lemma nth_nth_set_block:
  assumes M: "is_mat N N M" and B: "is_mat (hi - lo) (hi - lo) B" and lo: "lo \<le> hi" and hi: "hi \<le> N"
    and a: "a < N" and b: "b < N"
  shows "set_block M lo hi B ! a ! b =
           (if lo \<le> a \<and> a < hi \<and> lo \<le> b \<and> b < hi then B ! (a - lo) ! (b - lo) else M ! a ! b)"
proof (cases "lo \<le> a \<and> a < hi")
  case False
  then show ?thesis using a M by (auto simp: set_block_def is_mat_def)
next
  case True
  have la: "length (M ! a) = N" using M a by (simp add: is_mat_def)
  have "a - lo < hi - lo" using True by arith
  then have lb: "length (B ! (a - lo)) = hi - lo" using B by (simp add: is_mat_def)
  have r: "set_block M lo hi B ! a = take lo (M ! a) @ B ! (a - lo) @ drop hi (M ! a)"
    using True a M by (simp add: set_block_def is_mat_def)
  show ?thesis
    unfolding r using True la lb lo hi b
    by (auto simp: nth_append min_def)
qed

lemma axis_range_facts:
  assumes "p < n"
  shows "fst (axis_range p n) < snd (axis_range p n)" "snd (axis_range p n) \<le> n"
    "fst (axis_range p n) + snd (axis_range p n) = 2 * p + 1"
  using assms by (auto simp: axis_range_def)

lemma getPeakSymmetryOperator_centre:
  "2 * px + 1 = w \<Longrightarrow> 2 * py + 1 = h \<Longrightarrow>
   getPeakSymmetryOperator row (h, w) px py = fliplr (eye (size_m row))"
  by (simp add: getPeakSymmetryOperator_def)

lemma getPeakSymmetryOperator_off_centre:
  assumes "\<not> (2 * px + 1 = w \<and> 2 * py + 1 = h)"
  shows "getPeakSymmetryOperator row (h, w) px py =
     set_block (zeros (w * h) (w * h))
       (fst (axis_range py h) * w + fst (axis_range px w))
       ((snd (axis_range py h) - 1) * w + snd (axis_range px w))
       (fliplr (zero_extra (snd (axis_range px w) - fst (axis_range px w))
                  (w - (snd (axis_range px w) - fst (axis_range px w)))
                  (snd (axis_range py h) - fst (axis_range py h))
                  (eye ((snd (axis_range py h) - fst (axis_range py h) - 1) * w +
                        (snd (axis_range px w) - fst (axis_range px w))))))"
proof -
  obtain ymin ymax where y: "axis_range py h = (ymin, ymax)" by (cases "axis_range py h")
  obtain xmin xmax where x: "axis_range px w = (xmin, xmax)" by (cases "axis_range px w")
  show ?thesis
  proof (cases "2 * px + 1 = w")
    case True
    with assms have "2 * py + 1 \<noteq> h" by blast
    then show ?thesis unfolding getPeakSymmetryOperator_def by (simp add: Let_def x y)
  next
    case False
    then show ?thesis unfolding getPeakSymmetryOperator_def by (simp add: Let_def x y)
  qed
qed

lemma block_arith:
  fixes w h :: nat
  assumes y: "ymin < ymax" "ymax \<le> h" "ymin + ymax = 2 * py + 1"
    and x: "xmin < xmax" "xmax \<le> w" "xmin + xmax = 2 * px + 1"
  shows "ymin * w + xmin \<le> (ymax - 1) * w + xmax"
    and "(ymax - 1) * w + xmax \<le> w * h"
    and "(ymax - 1) * w + xmax - (ymin * w + xmin) = (ymax - ymin - 1) * w + (xmax - xmin)"
    and "(ymin * w + xmin) + ((ymax - 1) * w + xmax) = 2 * py * w + 2 * px + 1"
proof -
  obtain k where k: "ymax = Suc (ymin + k)" using y(1) less_imp_Suc_add by blast
  have e1: "(ymax - 1) * w = ymin * w + k * w" unfolding k by (simp add: add_mult_distrib)
  have e2: "(ymax - ymin - 1) * w = k * w" unfolding k by simp
  show "ymin * w + xmin \<le> (ymax - 1) * w + xmax" unfolding e1 using x(1) by simp
  show "(ymax - 1) * w + xmax - (ymin * w + xmin) = (ymax - ymin - 1) * w + (xmax - xmin)"
    unfolding e1 e2 using x(1) by simp
  have "Suc (ymin + k) * w \<le> h * w" using y(2) unfolding k by (rule mult_le_mono1)
  then have "ymin * w + k * w + w \<le> h * w" by (simp add: add_mult_distrib)
  then have "ymin * w + k * w + w \<le> w * h" by (simp only: mult.commute [of h w])
  then show "(ymax - 1) * w + xmax \<le> w * h" unfolding e1 using x(2) by linarith
  have "ymin + (ymin + k) = 2 * py" using y(3) unfolding k by simp
  then have "(ymin + (ymin + k)) * w = 2 * py * w" by (simp only:)
  then have "ymin * w + (ymin * w + k * w) = 2 * py * w" by (simp only: add_mult_distrib)
  then show "(ymin * w + xmin) + ((ymax - 1) * w + xmax) = 2 * py * w + 2 * px + 1"
    unfolding e1 using x(3) by linarith
qed

lemma axis_range_pair:
  assumes "p < n" "axis_range p n = (mn, mx)"
  shows "mn < mx" "mx \<le> n" "mn + mx = 2 * p + 1"
  using axis_range_facts [OF assms(1)] assms(2) by simp_all

lemma symmetry_operator_entries:
  assumes px: "px < w" and py: "py < h" and oc: "\<not> (2 * px + 1 = w \<and> 2 * py + 1 = h)"
    and yr: "axis_range py h = (ymin, ymax)" and xr: "axis_range px w = (xmin, xmax)"
  defines "smin \<equiv> ymin * w + xmin" and "smax \<equiv> (ymax - 1) * w + xmax"
    and "pixels \<equiv> (ymax - ymin - 1) * w + (xmax - xmin)"
  shows "is_mat (w * h) (w * h) (getPeakSymmetryOperator row (h, w) px py) \<and>
    (\<forall>a<w * h. \<forall>b<w * h. getPeakSymmetryOperator row (h, w) px py ! a ! b =
       (if smin \<le> a \<and> a < smax \<and> smin \<le> b \<and> b < smax \<and> (a - smin) + (b - smin) + 1 = pixels \<and>
           \<not> zeroed (xmax - xmin) (w - (xmax - xmin)) (ymax - ymin) (a - smin)
        then 1 else 0))"
proof -
  let ?D = "zero_extra (xmax - xmin) (w - (xmax - xmin)) (ymax - ymin) (eye pixels)"
  note y = axis_range_pair [OF py yr]
  note x = axis_range_pair [OF px xr]
  note g = block_arith [OF y x, folded smin_def smax_def pixels_def]
  have S: "getPeakSymmetryOperator row (h, w) px py =
             set_block (zeros (w * h) (w * h)) smin smax (fliplr ?D)"
    unfolding getPeakSymmetryOperator_off_centre [OF oc] smin_def smax_def pixels_def
    by (simp add: yr xr)
  note D = zero_extra_eye [of pixels "xmax - xmin" "w - (xmax - xmin)" "ymax - ymin"]
  have F: "is_mat (smax - smin) (smax - smin) (fliplr ?D)"
    unfolding g(3) using D [THEN conjunct1] by (rule is_mat_fliplr)
  have shape: "is_mat (w * h) (w * h) (getPeakSymmetryOperator row (h, w) px py)"
    unfolding S using is_mat_zeros F g(1,2) by (rule is_mat_set_block)
  have ent: "getPeakSymmetryOperator row (h, w) px py ! a ! b =
       (if smin \<le> a \<and> a < smax \<and> smin \<le> b \<and> b < smax \<and> (a - smin) + (b - smin) + 1 = pixels \<and>
           \<not> zeroed (xmax - xmin) (w - (xmax - xmin)) (ymax - ymin) (a - smin)
        then 1 else 0)" if a: "a < w * h" and b: "b < w * h" for a b
  proof (cases "smin \<le> a \<and> a < smax \<and> smin \<le> b \<and> b < smax")
    case False
    have "getPeakSymmetryOperator row (h, w) px py ! a ! b = zeros (w * h) (w * h) ! a ! b"
      unfolding S nth_nth_set_block [OF is_mat_zeros F g(1,2) a b] using False by (rule if_not_P)
    also have "\<dots> = 0" using a b by (rule nth_nth_zeros)
    finally show ?thesis using False by auto
  next
    case True
    have c: "a - smin < pixels" and d: "b - smin < pixels"
      using True g(3) by linarith+
    have d': "pixels - 1 - (b - smin) < pixels" using d by linarith
    have "getPeakSymmetryOperator row (h, w) px py ! a ! b = fliplr ?D ! (a - smin) ! (b - smin)"
      unfolding S nth_nth_set_block [OF is_mat_zeros F g(1,2) a b] using True by (rule if_P)
    also have "\<dots> = ?D ! (a - smin) ! (pixels - 1 - (b - smin))"
      using D [THEN conjunct1] c d by (rule nth_nth_fliplr)
    also have "\<dots> = (if a - smin = pixels - 1 - (b - smin) \<and>
                         \<not> zeroed (xmax - xmin) (w - (xmax - xmin)) (ymax - ymin) (a - smin)
                       then 1 else 0)"
      using D [THEN conjunct2] c d' by blast
    finally have e: "getPeakSymmetryOperator row (h, w) px py ! a ! b =
        (if a - smin = pixels - 1 - (b - smin) \<and>
            \<not> zeroed (xmax - xmin) (w - (xmax - xmin)) (ymax - ymin) (a - smin)
         then 1 else 0)" .
    have "a - smin = pixels - 1 - (b - smin) \<longleftrightarrow> (a - smin) + (b - smin) + 1 = pixels"
      using c d by linarith
    then show ?thesis unfolding e using True by simp
  qed
  from shape ent show ?thesis by blast
qed

lemma idx_form:
  fixes w :: nat
  assumes "tW \<le> w"
  shows "(i + 1) * tW + i * (w - tW) + j = i * w + tW + j"
proof -
  have "i * tW + i * (w - tW) = i * (tW + (w - tW))" by (simp only: add_mult_distrib2)
  also have "\<dots> = i * w" using assms by simp
  finally show ?thesis by simp
qed

lemma zeroed_iff:
  assumes "tW \<le> w"
  shows "zeroed tW (w - tW) tH c \<longleftrightarrow> (\<exists>i<tH - 1. \<exists>j<w - tW. c = i * w + tW + j)"
  unfolding zeroed_def idx_form [OF assms] ..

lemma divmod_unique:
  fixes w :: nat
  assumes "x < w" "x' < w" "y * w + x = y' * w + x'"
  shows "y = y' \<and> x = x'"
proof -
  have "(y * w + x) div w = y" "(y' * w + x') div w = y'" using assms(1,2) by simp_all
  then have "y = y'" using assms(3) by simp
  with assms(3) show ?thesis by simp
qed

lemma zeroed_reflect:
  assumes tW: "tW \<le> w" and s: "c + d + 1 = (tH - 1) * w + tW" and z: "zeroed tW (w - tW) tH c"
  shows "zeroed tW (w - tW) tH d"
proof -
  obtain i j where ij: "i < tH - 1" "j < w - tW" "c = i * w + tW + j"
    using z unfolding zeroed_iff [OF tW] by blast
  obtain m where m: "tH - 1 = Suc (i + m)" using ij(1) less_imp_Suc_add by blast
  have e: "(tH - 1) * w = i * w + m * w + w" unfolding m by (simp add: add_mult_distrib)
  have "d + j + 1 = m * w + w" using s unfolding e ij(3) by simp
  then have d: "d = m * w + tW + (w - tW - 1 - j)" using ij(2) tW by linarith
  have "m < tH - 1" unfolding m by simp
  moreover have "w - tW - 1 - j < w - tW" using ij(2) by linarith
  ultimately show ?thesis unfolding zeroed_iff [OF tW] using d by blast
qed

lemma symmetry_operator_symmetric:
  assumes px: "px < w" and py: "py < h" and oc: "\<not> (2 * px + 1 = w \<and> 2 * py + 1 = h)"
    and a: "a < w * h" and b: "b < w * h"
  shows "getPeakSymmetryOperator row (h, w) px py ! a ! b =
         getPeakSymmetryOperator row (h, w) px py ! b ! a"
proof -
  obtain ymin ymax where yr: "axis_range py h = (ymin, ymax)" by (cases "axis_range py h")
  obtain xmin xmax where xr: "axis_range px w = (xmin, xmax)" by (cases "axis_range px w")
  note x = axis_range_pair [OF px xr]
  note E = symmetry_operator_entries [OF px py oc yr xr, of row, THEN conjunct2, rule_format]
  let ?smin = "ymin * w + xmin"
  let ?pixels = "(ymax - ymin - 1) * w + (xmax - xmin)"
  let ?z = "zeroed (xmax - xmin) (w - (xmax - xmin)) (ymax - ymin)"
  have tW: "xmax - xmin \<le> w" using x by linarith
  have r: "?z c \<longleftrightarrow> ?z d" if "c + d + 1 = ?pixels" for c d
  proof
    assume "?z c" with that show "?z d" by (intro zeroed_reflect [OF tW, of c d]) 
  next
    have "d + c + 1 = ?pixels" using that by simp
    moreover assume "?z d"
    ultimately show "?z c" by (intro zeroed_reflect [OF tW, of d c])
  qed
  show ?thesis
    unfolding E [OF a b] E [OF b a] using r [of "a - ?smin" "b - ?smin"]
    by (auto simp: add.commute)
qed

lemma transpose_symmetric:
  assumes M: "is_mat n n M" and s: "\<And>a b. a < n \<Longrightarrow> b < n \<Longrightarrow> M ! a ! b = M ! b ! a"
  shows "transpose_m M = M"
proof (cases "n = 0")
  case True
  then have "M = []" using M by (simp add: is_mat_def)
  then show ?thesis by (simp add: transpose_m_def ncols_def)
next
  case False
  then have n: "0 < n" by simp
  have T: "is_mat n n (transpose_m M)" using M n by (rule is_mat_transpose)
  show ?thesis
  proof (rule nth_equalityI)
    show "length (transpose_m M) = length M" using T M by (simp add: is_mat_def)
  next
    fix j assume "j < length (transpose_m M)"
    then have j: "j < n" using T by (simp add: is_mat_def)
    show "transpose_m M ! j = M ! j"
    proof (rule nth_equalityI)
      show "length (transpose_m M ! j) = length (M ! j)" using T M j by (simp add: is_mat_def)
    next
      fix i assume "i < length (transpose_m M ! j)"
      then have i: "i < n" using T j by (simp add: is_mat_def)
      show "transpose_m M ! j ! i = M ! j ! i"
        using nth_nth_transpose [OF M n j i] s [OF i j] by simp
    qed
  qed
qed

lemma fliplr_eye_symmetric: "transpose_m (fliplr (eye n)) = fliplr (eye n)"
proof (rule transpose_symmetric)
  show "is_mat n n (fliplr (eye n))" using is_mat_eye by (rule is_mat_fliplr)
next
  fix a b assume ab: "a < n" "b < n"
  have "fliplr (eye n) ! a ! b = (if a = n - 1 - b then 1 else 0)"
    using ab by (simp add: nth_nth_fliplr [OF is_mat_eye] nth_nth_eye)
  moreover have "fliplr (eye n) ! b ! a = (if b = n - 1 - a then 1 else 0)"
    using ab by (simp add: nth_nth_fliplr [OF is_mat_eye] nth_nth_eye)
  moreover have "a = n - 1 - b \<longleftrightarrow> b = n - 1 - a" using ab by linarith
  ultimately show "fliplr (eye n) ! a ! b = fliplr (eye n) ! b ! a" by simp
qed

lemma getPeakSymmetryOperator_transpose:
  assumes px: "px < w" and py: "py < h"
  shows "transpose_m (getPeakSymmetryOperator row (h, w) px py) = getPeakSymmetryOperator row (h, w) px py"
proof (cases "2 * px + 1 = w \<and> 2 * py + 1 = h")
  case True
  then show ?thesis by (simp add: getPeakSymmetryOperator_centre fliplr_eye_symmetric)
next
  case False
  obtain ymin ymax where yr: "axis_range py h = (ymin, ymax)" by (cases "axis_range py h")
  obtain xmin xmax where xr: "axis_range px w = (xmin, xmax)" by (cases "axis_range px w")
  show ?thesis
    using symmetry_operator_entries [OF px py False yr xr, of row, THEN conjunct1]
      symmetry_operator_symmetric [OF px py False]
    by (rule transpose_symmetric)
qed

lemma length_getSymmetryOperator: "length (getSymmetryOperator H fp) = length (peaks fp)"
  by (simp add: getSymmetryOperator_def)

lemma nth_getSymmetryOperator:
  "s < length (peaks fp) \<Longrightarrow>
   getSymmetryOperator H fp ! s =
     getPeakSymmetryOperator (drop s H) (height fp, width fp) (fst (peaks fp ! s)) (snd (peaks fp ! s))"
  by (simp add: getSymmetryOperator_def nth_enumerate_eq split: prod.splits)


subsection \<open>The symmetry operator on the pixel grid\<close>

lemma axis_in_range:
  assumes "p < n" "axis_range p n = (mn, mx)" "y < n"
  shows "(mn \<le> y \<and> y < mx) \<longleftrightarrow> (y \<le> 2 * p \<and> 2 * p - y < n)"
  using assms by (auto simp: axis_range_def split: if_splits)

lemma flat_index_less:
  fixes w :: nat
  assumes "y < h" "x < w"
  shows "y * w + x < w * h"
proof -
  have "Suc y * w \<le> h * w" using assms(1) by (intro mult_le_mono1) simp
  then show ?thesis using assms(2) by (simp add: mult.commute)
qed

lemma flat_in_rect:
  fixes w :: nat
  assumes x: "x < w" and xr: "xmin < xmax" "xmax \<le> w" and yr: "ymin < ymax"
  defines "tW \<equiv> xmax - xmin" and "tH \<equiv> ymax - ymin"
  defines "smin \<equiv> ymin * w + xmin" and "pixels \<equiv> (tH - 1) * w + tW"
  shows "(smin \<le> y * w + x \<and> y * w + x < smin + pixels \<and> \<not> zeroed tW (w - tW) tH (y * w + x - smin))
         \<longleftrightarrow> (ymin \<le> y \<and> y < ymax \<and> xmin \<le> x \<and> x < xmax)"
proof
  assume r: "ymin \<le> y \<and> y < ymax \<and> xmin \<le> x \<and> x < xmax"
  obtain q where q: "y = ymin + q" using r le_Suc_ex by blast
  obtain r' where r': "x = xmin + r'" using r le_Suc_ex by blast
  have qt: "q \<le> tH - 1" and rt: "r' < tW" using r q r' unfolding tH_def tW_def by linarith+
  have tw: "tW \<le> w" unfolding tW_def using xr by linarith
  have a: "y * w + x = smin + (q * w + r')"
    unfolding q r' smin_def by (simp add: add_mult_distrib)
  have "q * w \<le> (tH - 1) * w" using qt by (rule mult_le_mono1)
  then have lt: "q * w + r' < pixels" unfolding pixels_def using rt by linarith
  have nz: "\<not> zeroed tW (w - tW) tH (q * w + r')"
  proof
    assume "zeroed tW (w - tW) tH (q * w + r')"
    then obtain i j where ij: "j < w - tW" "q * w + r' = i * w + tW + j"
      unfolding zeroed_iff [OF tw] by blast
    have "r' < w" using rt tw by linarith
    moreover have "tW + j < w" using ij(1) by linarith
    moreover have "q * w + r' = i * w + (tW + j)" using ij(2) by simp
    ultimately have "r' = tW + j" using divmod_unique by blast
    then show False using rt by simp
  qed
  show "smin \<le> y * w + x \<and> y * w + x < smin + pixels \<and> \<not> zeroed tW (w - tW) tH (y * w + x - smin)"
    unfolding a using lt nz by simp
next
  assume f: "smin \<le> y * w + x \<and> y * w + x < smin + pixels \<and> \<not> zeroed tW (w - tW) tH (y * w + x - smin)"
  define c where "c = y * w + x - smin"
  have a: "y * w + x = smin + c" and c: "c < pixels"
    using f unfolding c_def by linarith+
  have nz: "\<not> zeroed tW (w - tW) tH c" using f unfolding c_def by blast
  have w0: "0 < w" using x by simp
  have tw: "tW \<le> w" "0 < tW" unfolding tW_def using xr by linarith+
  have th: "0 < tH" unfolding tH_def using yr by simp
  define q where "q = c div w"
  define r where "r = c mod w"
  have cq: "c = q * w + r" and rw: "r < w" unfolding q_def r_def using w0 by simp_all
  have rt: "r < tW"
  proof (rule ccontr)
    assume n: "\<not> r < tW"
    show False
    proof (cases "q < tH - 1")
      case True
      have "r - tW < w - tW" using n rw by linarith
      moreover have "c = q * w + tW + (r - tW)" using cq n by simp
      ultimately have "zeroed tW (w - tW) tH c" unfolding zeroed_iff [OF tw(1)] using True by blast
      with nz show False ..
    next
      case False
      then have "(tH - 1) * w \<le> q * w" by (intro mult_le_mono1) simp
      then show False using c n unfolding pixels_def cq by linarith
    qed
  qed
  have qt: "q < tH"
  proof (rule ccontr)
    assume "\<not> q < tH"
    then have "Suc (tH - 1) * w \<le> q * w" using th by (intro mult_le_mono1) simp
    then have "(tH - 1) * w + w \<le> q * w" by simp
    then show False using c tw unfolding pixels_def cq by linarith
  qed
  have "y * w + x = (ymin + q) * w + (xmin + r)"
    unfolding a smin_def cq by (simp add: add_mult_distrib)
  moreover have "xmin + r < w" using rt xr unfolding tW_def by linarith
  ultimately have "y = ymin + q \<and> x = xmin + r" using divmod_unique [OF x] by blast
  then show "ymin \<le> y \<and> y < ymax \<and> xmin \<le> x \<and> x < xmax"
    using qt rt unfolding tH_def tW_def by linarith
qed

lemma mirror_sum:
  fixes w :: nat
  assumes "y \<le> 2 * py" "x \<le> 2 * px"
  shows "(y * w + x) + ((2 * py - y) * w + (2 * px - x)) = 2 * py * w + 2 * px"
proof -
  have "y * w + (2 * py - y) * w = (y + (2 * py - y)) * w" by (simp only: add_mult_distrib)
  also have "\<dots> = 2 * py * w" using assms(1) by simp
  finally show ?thesis using assms(2) by linarith
qed

lemma operator_row_off_centre:
  assumes px: "px < w" and py: "py < h" and oc: "\<not> (2 * px + 1 = w \<and> 2 * py + 1 = h)"
    and y: "y < h" and x: "x < w" and b: "b < w * h"
  shows "getPeakSymmetryOperator row (h, w) px py ! (y * w + x) ! b =
           (if mirror_in_box (h, w) px py y x \<and> b = (2 * py - y) * w + (2 * px - x) then 1 else 0)"
proof -
  obtain ymin ymax where yr: "axis_range py h = (ymin, ymax)" by (cases "axis_range py h")
  obtain xmin xmax where xr: "axis_range px w = (xmin, xmax)" by (cases "axis_range px w")
  note ay = axis_range_pair [OF py yr]
  note ax = axis_range_pair [OF px xr]
  let ?a = "y * w + x"
  let ?smin = "ymin * w + xmin"
  let ?smax = "(ymax - 1) * w + xmax"
  let ?pixels = "(ymax - ymin - 1) * w + (xmax - xmin)"
  let ?z = "zeroed (xmax - xmin) (w - (xmax - xmin)) (ymax - ymin)"
  note g = block_arith [OF ay ax]
  have smax: "?smax = ?smin + ?pixels" using g(1,3) by linarith
  have a: "?a < w * h" using y x by (rule flat_index_less)
  note E = symmetry_operator_entries [OF px py oc yr xr, of row, THEN conjunct2, rule_format, OF a b]
  have R: "(?smin \<le> ?a \<and> ?a < ?smax \<and> \<not> ?z (?a - ?smin)) \<longleftrightarrow> mirror_in_box (h, w) px py y x"
    unfolding smax flat_in_rect [OF x ax(1,2) ay(1)] mirror_in_box_def
    using axis_in_range [OF py yr y] axis_in_range [OF px xr x] by (simp only: fst_conv snd_conv) blast
  show ?thesis
  proof (cases "mirror_in_box (h, w) px py y x")
    case False
    with R have "\<not> (?smin \<le> ?a \<and> ?a < ?smax \<and> \<not> ?z (?a - ?smin))" by blast
    then show ?thesis unfolding E using False by auto
  next
    case True
    with R have f: "?smin \<le> ?a" "?a < ?smax" "\<not> ?z (?a - ?smin)" by blast+
    have m: "?a + ((2 * py - y) * w + (2 * px - x)) = 2 * py * w + 2 * px"
      using True unfolding mirror_in_box_def by (intro mirror_sum) simp_all
    have "(?smin \<le> b \<and> b < ?smax \<and> (?a - ?smin) + (b - ?smin) + 1 = ?pixels) \<longleftrightarrow>
          b = (2 * py - y) * w + (2 * px - x)"
      using f(1,2) g(4) m smax by linarith
    then show ?thesis unfolding E using True f by auto
  qed
qed

lemma operator_row_centre:
  assumes c: "2 * px + 1 = w" "2 * py + 1 = h" and sz: "size_m row = w * h"
    and y: "y < h" and x: "x < w" and b: "b < w * h"
  shows "getPeakSymmetryOperator row (h, w) px py ! (y * w + x) ! b =
           (if mirror_in_box (h, w) px py y x \<and> b = (2 * py - y) * w + (2 * px - x) then 1 else 0)"
proof -
  have a: "y * w + x < w * h" using y x by (rule flat_index_less)
  have mb: "mirror_in_box (h, w) px py y x"
    using c y x by (simp add: mirror_in_box_def) linarith
  have m: "(y * w + x) + ((2 * py - y) * w + (2 * px - x)) = 2 * py * w + 2 * px"
    using mb unfolding mirror_in_box_def by (intro mirror_sum) simp_all
  have N: "w * h = 2 * py * w + 2 * px + 1"
  proof -
    have "w * h = (2 * py + 1) * w" using c(2) by (simp add: mult.commute)
    also have "\<dots> = 2 * py * w + w" by (simp add: add_mult_distrib)
    finally show ?thesis using c(1) by linarith
  qed
  have "getPeakSymmetryOperator row (h, w) px py ! (y * w + x) ! b =
          (if y * w + x = w * h - 1 - b then 1 else 0)"
    unfolding getPeakSymmetryOperator_centre [OF c] sz
    using a b by (simp add: nth_nth_fliplr [OF is_mat_eye] nth_nth_eye)
  also have "y * w + x = w * h - 1 - b \<longleftrightarrow> b = (2 * py - y) * w + (2 * px - x)"
    using a b m N by linarith
  finally show ?thesis using mb by simp
qed

lemma operator_row:
  assumes px: "px < w" and py: "py < h" and sz: "size_m row = w * h"
    and y: "y < h" and x: "x < w" and b: "b < w * h"
  shows "getPeakSymmetryOperator row (h, w) px py ! (y * w + x) ! b =
           (if mirror_in_box (h, w) px py y x \<and> b = (2 * py - y) * w + (2 * px - x) then 1 else 0)"
proof (cases "2 * px + 1 = w \<and> 2 * py + 1 = h")
  case True
  then show ?thesis using operator_row_centre [OF _ _ sz y x b] by blast
next
  case False
  then show ?thesis by (rule operator_row_off_centre [OF px py _ y x b])
qed

lemma is_mat_getPeakSymmetryOperator:
  assumes px: "px < w" and py: "py < h" and sz: "size_m row = w * h"
  shows "is_mat (w * h) (w * h) (getPeakSymmetryOperator row (h, w) px py)"
proof (cases "2 * px + 1 = w \<and> 2 * py + 1 = h")
  case True
  then show ?thesis
    using is_mat_fliplr [OF is_mat_eye, of "w * h"] by (simp add: getPeakSymmetryOperator_centre sz)
next
  case False
  obtain ymin ymax where yr: "axis_range py h = (ymin, ymax)" by (cases "axis_range py h")
  obtain xmin xmax where xr: "axis_range px w = (xmin, xmax)" by (cases "axis_range px w")
  show ?thesis using symmetry_operator_entries [OF px py False yr xr] by blast
qed

lemma nth_matvec:
  "is_mat r c M \<Longrightarrow> i < r \<Longrightarrow> matvec M v ! i = (\<Sum>k<c. M ! i ! k * v ! k)"
  by (simp add: matvec_def is_mat_def)

lemma length_matvec: "length (matvec M v) = length M"
  by (simp add: matvec_def)

lemma matvec_symmetry_operator:
  assumes px: "px < w" and py: "py < h" and sz: "size_m row = w * h"
    and y: "y < h" and x: "x < w"
  shows "matvec (getPeakSymmetryOperator row (h, w) px py) v ! (y * w + x) =
           (if mirror_in_box (h, w) px py y x then v ! ((2 * py - y) * w + (2 * px - x)) else 0)"
proof -
  let ?S = "getPeakSymmetryOperator row (h, w) px py"
  let ?m = "(2 * py - y) * w + (2 * px - x)"
  have a: "y * w + x < w * h" using y x by (rule flat_index_less)
  have "matvec ?S v ! (y * w + x) = (\<Sum>k<w * h. ?S ! (y * w + x) ! k * v ! k)"
    using is_mat_getPeakSymmetryOperator [OF px py sz] a by (rule nth_matvec)
  also have "\<dots> = (\<Sum>k<w * h. if k = ?m then (if mirror_in_box (h, w) px py y x then v ! k else 0) else 0)"
    by (intro sum.cong) (simp_all add: operator_row [OF px py sz y x])
  also have "\<dots> = (if ?m \<in> {..<w * h} then (if mirror_in_box (h, w) px py y x then v ! ?m else 0) else 0)"
    by (subst sum.delta) simp_all
  finally have e: "matvec ?S v ! (y * w + x) =
      (if ?m \<in> {..<w * h} then (if mirror_in_box (h, w) px py y x then v ! ?m else 0) else 0)" .
  show ?thesis
  proof (cases "mirror_in_box (h, w) px py y x")
    case False
    then show ?thesis unfolding e by simp
  next
    case True
    then have "2 * py - y < h" "2 * px - x < w" by (simp_all add: mirror_in_box_def)
    then have "?m < w * h" by (rule flat_index_less)
    then show ?thesis unfolding e using True by simp
  qed
qed

lemma point_symmetric_iff:
  "point_symmetric (h, w) px py v \<longleftrightarrow>
     (\<forall>y<h. \<forall>x<w. mirror_in_box (h, w) px py y x \<longrightarrow>
        v ! (y * w + x) = v ! ((2 * py - y) * w + (2 * px - x)))"
  unfolding point_symmetric_def list_all_iff Ball_def by auto

lemma vanishes_off_mirror_iff:
  "vanishes_off_mirror (h, w) px py v \<longleftrightarrow>
     (\<forall>y<h. \<forall>x<w. \<not> mirror_in_box (h, w) px py y x \<longrightarrow> v ! (y * w + x) = 0)"
  unfolding vanishes_off_mirror_def list_all_iff Ball_def by auto

lemma symmetric_row_fixed:
  assumes px: "px < w" and py: "py < h" and sz: "size_m row = w * h" and lv: "length v = w * h"
    and ps: "point_symmetric (h, w) px py v" and vo: "vanishes_off_mirror (h, w) px py v"
  shows "matvec (getPeakSymmetryOperator row (h, w) px py) v = v"
proof (rule nth_equalityI)
  show "length (matvec (getPeakSymmetryOperator row (h, w) px py) v) = length v"
    using is_mat_getPeakSymmetryOperator [OF px py sz] lv by (simp add: length_matvec is_mat_def)
next
  fix a assume "a < length (matvec (getPeakSymmetryOperator row (h, w) px py) v)"
  then have a: "a < w * h"
    using is_mat_getPeakSymmetryOperator [OF px py sz] by (simp add: length_matvec is_mat_def)
  have w0: "0 < w" using px by simp
  define y where "y = a div w"
  define x where "x = a mod w"
  have ax: "a = y * w + x" and x: "x < w" unfolding y_def x_def using w0 by simp_all
  have y: "y < h" unfolding y_def using a w0 by (simp add: less_mult_imp_div_less mult.commute)
  show "matvec (getPeakSymmetryOperator row (h, w) px py) v ! a = v ! a"
    unfolding ax matvec_symmetry_operator [OF px py sz y x]
    using ps vo y x unfolding point_symmetric_iff vanishes_off_mirror_iff by auto
qed

lemma symmetryDiff_fixed:
  assumes S: "is_mat N N S" and lv: "length v = N" and f: "matvec S v = v"
  shows "matvec (symmetryDiff S) v = replicate N 0"
proof (cases "N = 0")
  case True
  then have "S = []" using S by (simp add: is_mat_def)
  then show ?thesis using True by (simp add: symmetryDiff_def matvec_def sub_m_def map2_m_def scale_m_def)
next
  case False
  then have N: "0 < N" by simp
  have lS: "length S = N" using S by (simp add: is_mat_def)
  have SS: "is_mat N N (matmul S S)" using S S N by (rule is_mat_matmul)
  have I: "is_mat N N (eye N)" by (rule is_mat_eye)
  have A: "is_mat N N (add_m (eye N) (matmul S S))" unfolding add_m_def using I SS by (rule is_mat_map2_m)
  have C: "is_mat N N (scale_m 2 S)" unfolding scale_m_def using S by (rule is_mat_map_map)
  have D: "is_mat N N (symmetryDiff S)"
    unfolding symmetryDiff_def lS sub_m_def using A C by (rule is_mat_map2_m)
  have fv: "\<And>t. t < N \<Longrightarrow> (\<Sum>k<N. S ! t ! k * v ! k) = v ! t"
    using nth_matvec [OF S, of _ v] f by simp
  have ent: "symmetryDiff S ! a ! b = (if a = b then 1 else 0) + (\<Sum>t<N. S ! a ! t * S ! t ! b) - 2 * S ! a ! b"
    if a: "a < N" and b: "b < N" for a b
  proof -
    have "symmetryDiff S ! a ! b = add_m (eye N) (matmul S S) ! a ! b - scale_m 2 S ! a ! b"
      unfolding symmetryDiff_def lS sub_m_def by (rule nth_nth_map2_m [OF A C a b])
    also have "add_m (eye N) (matmul S S) ! a ! b = eye N ! a ! b + matmul S S ! a ! b"
      unfolding add_m_def by (rule nth_nth_map2_m [OF I SS a b])
    also have "eye N ! a ! b = (if a = b then 1 else 0)" using a b by (rule nth_nth_eye)
    also have "matmul S S ! a ! b = (\<Sum>t<N. S ! a ! t * S ! t ! b)" by (rule nth_nth_matmul [OF S S N a b])
    also have "scale_m 2 S ! a ! b = 2 * S ! a ! b" unfolding scale_m_def by (rule nth_nth_map_map [OF S a b])
    finally show ?thesis .
  qed
  show ?thesis
  proof (rule nth_equalityI)
    show "length (matvec (symmetryDiff S) v) = length (replicate N (0::real))"
      using D by (simp add: length_matvec is_mat_def)
  next
    fix a assume "a < length (matvec (symmetryDiff S) v)"
    then have a: "a < N" using D by (simp add: length_matvec is_mat_def)
    have "matvec (symmetryDiff S) v ! a = (\<Sum>b<N. symmetryDiff S ! a ! b * v ! b)"
      using D a by (rule nth_matvec)
    also have "\<dots> = (\<Sum>b<N. (if a = b then v ! b else 0) + (\<Sum>t<N. S ! a ! t * S ! t ! b) * v ! b - 2 * (S ! a ! b * v ! b))"
      by (intro sum.cong) (simp_all add: ent [OF a] algebra_simps)
    also have "\<dots> = (\<Sum>b<N. if a = b then v ! b else 0) + (\<Sum>b<N. (\<Sum>t<N. S ! a ! t * S ! t ! b) * v ! b)
                      - 2 * (\<Sum>b<N. S ! a ! b * v ! b)"
      by (simp add: sum.distrib sum_subtractf sum_distrib_left)
    also have "(\<Sum>b<N. if a = b then v ! b else 0) = v ! a" using a by (subst sum.delta') simp_all
    also have "(\<Sum>b<N. (\<Sum>t<N. S ! a ! t * S ! t ! b) * v ! b) = (\<Sum>t<N. S ! a ! t * (\<Sum>b<N. S ! t ! b * v ! b))"
    proof -
      have "(\<Sum>b<N. (\<Sum>t<N. S ! a ! t * S ! t ! b) * v ! b) = (\<Sum>b<N. \<Sum>t<N. S ! a ! t * (S ! t ! b * v ! b))"
        by (simp add: sum_distrib_right mult.assoc)
      also have "\<dots> = (\<Sum>t<N. \<Sum>b<N. S ! a ! t * (S ! t ! b * v ! b))" by (rule sum.swap)
      also have "\<dots> = (\<Sum>t<N. S ! a ! t * (\<Sum>b<N. S ! t ! b * v ! b))" by (simp add: sum_distrib_left)
      finally show ?thesis .
    qed
    also have "(\<Sum>t<N. S ! a ! t * (\<Sum>b<N. S ! t ! b * v ! b)) = (\<Sum>t<N. S ! a ! t * v ! t)"
      by (intro sum.cong) (simp_all add: fv)
    also have "(\<Sum>t<N. S ! a ! t * v ! t) = v ! a" using a by (rule fv)
    finally show "matvec (symmetryDiff S) v ! a = replicate N 0 ! a" using a by simp
  qed
qed

subsection \<open>Matrix products and inverses\<close>

lemma mat_eqI:
  assumes A: "is_mat r c A" and B: "is_mat r c B"
    and e: "\<And>i j. i < r \<Longrightarrow> j < c \<Longrightarrow> A ! i ! j = B ! i ! j"
  shows "A = B"
proof (rule nth_equalityI)
  show "length A = length B" using A B by (simp add: is_mat_def)
next
  fix i assume "i < length A"
  then have i: "i < r" using A by (simp add: is_mat_def)
  show "A ! i = B ! i"
  proof (rule nth_equalityI)
    show "length (A ! i) = length (B ! i)" using A B i by (simp add: is_mat_def)
  next
    fix j assume "j < length (A ! i)"
    then have "j < c" using A i by (simp add: is_mat_def)
    with i show "A ! i ! j = B ! i ! j" by (rule e)
  qed
qed

lemma is_inverseD:
  assumes "is_inverse M N"
  shows "is_mat (length M) (length M) M" "is_mat (length M) (length M) N"
    "matmul M N = eye (length M)" "matmul N M = eye (length M)"
  using assms by (simp_all add: is_inverse_def is_mat_def list_all_length)

lemma linalg_inv_sound: "linalg_inv M = Inr N \<Longrightarrow> is_inverse M N"
  by (simp add: linalg_inv_def Let_def split: if_splits)

lemma matmul_assoc:
  assumes A: "is_mat r k A" and B: "is_mat k m B" and C: "is_mat m c C" and k: "0 < k" and m: "0 < m"
  shows "matmul (matmul A B) C = matmul A (matmul B C)"
proof (rule mat_eqI)
  have AB: "is_mat r m (matmul A B)" using A B k by (rule is_mat_matmul)
  have BC: "is_mat k c (matmul B C)" using B C m by (rule is_mat_matmul)
  show "is_mat r c (matmul (matmul A B) C)" using AB C m by (rule is_mat_matmul)
  show "is_mat r c (matmul A (matmul B C))" using A BC k by (rule is_mat_matmul)
  fix i j assume i: "i < r" and j: "j < c"
  have "matmul (matmul A B) C ! i ! j = (\<Sum>t<m. (\<Sum>s<k. A ! i ! s * B ! s ! t) * C ! t ! j)"
    using nth_nth_matmul [OF AB C m i j] nth_nth_matmul [OF A B k i] by simp
  also have "\<dots> = (\<Sum>t<m. \<Sum>s<k. A ! i ! s * (B ! s ! t * C ! t ! j))"
    by (simp add: sum_distrib_right mult.assoc)
  also have "\<dots> = (\<Sum>s<k. \<Sum>t<m. A ! i ! s * (B ! s ! t * C ! t ! j))" by (rule sum.swap)
  also have "\<dots> = (\<Sum>s<k. A ! i ! s * (\<Sum>t<m. B ! s ! t * C ! t ! j))"
    by (simp add: sum_distrib_left)
  also have "\<dots> = matmul A (matmul B C) ! i ! j"
    using nth_nth_matmul [OF A BC k i j] nth_nth_matmul [OF B C m _ j] by simp
  finally show "matmul (matmul A B) C ! i ! j = matmul A (matmul B C) ! i ! j" .
qed

lemma matmul_eye_right:
  assumes A: "is_mat r n A" and n: "0 < n"
  shows "matmul A (eye n) = A"
proof (rule mat_eqI [OF _ A])
  show "is_mat r n (matmul A (eye n))" using A is_mat_eye n by (rule is_mat_matmul)
  fix i j assume i: "i < r" and j: "j < n"
  have "matmul A (eye n) ! i ! j = (\<Sum>t<n. A ! i ! t * eye n ! t ! j)"
    by (rule nth_nth_matmul [OF A is_mat_eye n i j])
  also have "\<dots> = (\<Sum>t<n. if t = j then A ! i ! t else 0)"
    using j by (intro sum.cong) (simp_all add: nth_nth_eye)
  also have "\<dots> = A ! i ! j" using j by (subst sum.delta) simp_all
  finally show "matmul A (eye n) ! i ! j = A ! i ! j" .
qed

lemma matmul_eye_left:
  assumes A: "is_mat n c A" and n: "0 < n"
  shows "matmul (eye n) A = A"
proof (rule mat_eqI [OF _ A])
  show "is_mat n c (matmul (eye n) A)" using is_mat_eye A n by (rule is_mat_matmul)
  fix i j assume i: "i < n" and j: "j < c"
  have "matmul (eye n) A ! i ! j = (\<Sum>t<n. eye n ! i ! t * A ! t ! j)"
    by (rule nth_nth_matmul [OF is_mat_eye A n i j])
  also have "\<dots> = (\<Sum>t<n. if t = i then A ! t ! j else 0)"
    using i by (intro sum.cong) (auto simp: nth_nth_eye)
  also have "\<dots> = A ! i ! j" using i by (subst sum.delta) simp_all
  finally show "matmul (eye n) A ! i ! j = A ! i ! j" .
qed

lemma transpose_matmul:
  assumes A: "is_mat r k A" and B: "is_mat k c B" and r: "0 < r" and k: "0 < k"
  shows "transpose_m (matmul A B) = matmul (transpose_m B) (transpose_m A)"
proof (rule mat_eqI)
  have AB: "is_mat r c (matmul A B)" using A B k by (rule is_mat_matmul)
  have Bt: "is_mat c k (transpose_m B)" using B k by (rule is_mat_transpose)
  have At: "is_mat k r (transpose_m A)" using A r by (rule is_mat_transpose)
  show "is_mat c r (transpose_m (matmul A B))" using AB r by (rule is_mat_transpose)
  show "is_mat c r (matmul (transpose_m B) (transpose_m A))" using Bt At k by (rule is_mat_matmul)
  fix j i assume j: "j < c" and i: "i < r"
  have "transpose_m (matmul A B) ! j ! i = (\<Sum>t<k. A ! i ! t * B ! t ! j)"
    using nth_nth_transpose [OF AB r j i] nth_nth_matmul [OF A B k i j] by simp
  also have "\<dots> = (\<Sum>t<k. transpose_m B ! j ! t * transpose_m A ! t ! i)"
    using nth_nth_transpose [OF B k j] nth_nth_transpose [OF A r _ i]
    by (intro sum.cong) (simp_all add: mult.commute)
  also have "\<dots> = matmul (transpose_m B) (transpose_m A) ! j ! i"
    by (rule nth_nth_matmul [OF Bt At k j i, symmetric])
  finally show "transpose_m (matmul A B) ! j ! i = matmul (transpose_m B) (transpose_m A) ! j ! i" .
qed

lemma transpose_eye: "transpose_m (eye n) = eye n"
  by (rule transpose_symmetric [OF is_mat_eye]) (simp add: nth_nth_eye)

lemma inverse_unique:
  assumes 1: "is_inverse M N1" and 2: "is_inverse M N2"
  shows "N1 = N2"
proof (cases "length M = 0")
  case True
  then show ?thesis using 1 2 by (simp add: is_inverse_def)
next
  case False
  then have n: "0 < length M" by simp
  note a = is_inverseD [OF 1]
  note b = is_inverseD [OF 2]
  have "N1 = matmul N1 (eye (length M))" using matmul_eye_right [OF a(2) n] by simp
  also have "\<dots> = matmul N1 (matmul M N2)" unfolding b(3) ..
  also have "\<dots> = matmul (matmul N1 M) N2" using matmul_assoc [OF a(2) a(1) b(2) n n] by simp
  also have "\<dots> = matmul (eye (length M)) N2" unfolding a(4) ..
  also have "\<dots> = N2" using b(2) n by (rule matmul_eye_left)
  finally show ?thesis .
qed

lemma inverse_symmetric:
  assumes i: "is_inverse M N" and s: "transpose_m M = M"
  shows "transpose_m N = N"
proof (cases "length M = 0")
  case True
  then have "N = []" using i by (simp add: is_inverse_def)
  then show ?thesis by (simp add: transpose_m_def ncols_def)
next
  case False
  then have n: "0 < length M" by simp
  note a = is_inverseD [OF i]
  have Nt: "is_mat (length M) (length M) (transpose_m N)" using a(2) n by (rule is_mat_transpose)
  have "matmul M (transpose_m N) = matmul (transpose_m M) (transpose_m N)" unfolding s ..
  also have "\<dots> = transpose_m (matmul N M)" using transpose_matmul [OF a(2) a(1) n n] by simp
  also have "\<dots> = eye (length M)" unfolding a(4) by (rule transpose_eye)
  finally have 1: "matmul M (transpose_m N) = eye (length M)" .
  have "matmul (transpose_m N) M = matmul (transpose_m N) (transpose_m M)" unfolding s ..
  also have "\<dots> = transpose_m (matmul M N)" using transpose_matmul [OF a(1) a(2) n n] by simp
  also have "\<dots> = eye (length M)" unfolding a(3) by (rule transpose_eye)
  finally have 2: "matmul (transpose_m N) M = eye (length M)" .
  have "is_inverse M (transpose_m N)"
    using a(1) Nt 1 2 by (simp add: is_inverse_def is_mat_def list_all_length)
  then show ?thesis using i by (rule inverse_unique)
qed

lemma gram_regularized_symmetric:
  assumes H: "is_mat K P H" and K: "0 < K" and P: "0 < P"
  shows "is_mat K K (add_scalar (matmul H (transpose_m H)) eps)"
    and "transpose_m (add_scalar (matmul H (transpose_m H)) eps) = add_scalar (matmul H (transpose_m H)) eps"
proof -
  have Ht: "is_mat P K (transpose_m H)" using H K by (rule is_mat_transpose)
  have G: "is_mat K K (matmul H (transpose_m H))" using H Ht P by (rule is_mat_matmul)
  show M: "is_mat K K (add_scalar (matmul H (transpose_m H)) eps)"
    unfolding add_scalar_def using G by (rule is_mat_map_map)
  have e: "add_scalar (matmul H (transpose_m H)) eps ! a ! b = (\<Sum>p<P. H ! a ! p * H ! b ! p) + eps"
    if a: "a < K" and b: "b < K" for a b
  proof -
    have "add_scalar (matmul H (transpose_m H)) eps ! a ! b = matmul H (transpose_m H) ! a ! b + eps"
      unfolding add_scalar_def by (rule nth_nth_map_map [OF G a b])
    also have "matmul H (transpose_m H) ! a ! b = (\<Sum>p<P. H ! a ! p * transpose_m H ! p ! b)"
      by (rule nth_nth_matmul [OF H Ht P a b])
    also have "\<dots> = (\<Sum>p<P. H ! a ! p * H ! b ! p)"
      using nth_nth_transpose [OF H K _ b] by (intro sum.cong) simp_all
    finally show ?thesis .
  qed
  show "transpose_m (add_scalar (matmul H (transpose_m H)) eps) = add_scalar (matmul H (transpose_m H)) eps"
    using M by (rule transpose_symmetric) (simp add: e mult.commute)
qed

lemmas mat_eval = matmul_def transpose_m_def ncols_def eye_def add_scalar_def add_m_def scale_m_def
  map2_m_def normalizeAbs_def abs_m_def sum_axis0_def div_cols_def zero_to_one_def
  lessThan_Suc upt_rec numeral_2_eq_2 numeral_3_eq_3

lemmas inv_eval = linalg_inv_def is_inverse_def adjugate_def cofactor_def del_nth_def Let_def

lemma inverseUpdate_W:
  assumes A: "is_mat B P A" and H: "is_mat K P H" and B: "0 < B" and K: "0 < K" and P: "0 < P"
    and G: "is_mat K K G" and s: "transpose_m G = G"
  shows "transpose_m (matmul G (matmul H (transpose_m A))) = matmul (matmul A (transpose_m H)) G"
proof (rule mat_eqI)
  have At: "is_mat P B (transpose_m A)" using A B by (rule is_mat_transpose)
  have Ht: "is_mat P K (transpose_m H)" using H K by (rule is_mat_transpose)
  have X: "is_mat K B (matmul H (transpose_m A))" using H At P by (rule is_mat_matmul)
  have GX: "is_mat K B (matmul G (matmul H (transpose_m A)))" using G X K by (rule is_mat_matmul)
  have Y: "is_mat B K (matmul A (transpose_m H))" using A Ht P by (rule is_mat_matmul)
  show "is_mat B K (transpose_m (matmul G (matmul H (transpose_m A))))" using GX K by (rule is_mat_transpose)
  show "is_mat B K (matmul (matmul A (transpose_m H)) G)" using Y G K by (rule is_mat_matmul)
  fix b k assume b: "b < B" and k: "k < K"
  have sym: "G ! t ! k = G ! k ! t" if "t < K" for t
    using nth_nth_transpose [OF G K k that] s by simp
  have x: "matmul H (transpose_m A) ! t ! b = (\<Sum>p<P. H ! t ! p * A ! b ! p)" if t: "t < K" for t
    using nth_nth_matmul [OF H At P t b] nth_nth_transpose [OF A B _ b] by simp
  have y: "matmul A (transpose_m H) ! b ! t = (\<Sum>p<P. H ! t ! p * A ! b ! p)" if t: "t < K" for t
    using nth_nth_matmul [OF A Ht P b t] nth_nth_transpose [OF H K _ t] by (simp add: mult.commute)
  have "transpose_m (matmul G (matmul H (transpose_m A))) ! b ! k =
          (\<Sum>t<K. G ! k ! t * matmul H (transpose_m A) ! t ! b)"
    using nth_nth_transpose [OF GX K b k] nth_nth_matmul [OF G X K k b] by simp
  also have "\<dots> = (\<Sum>t<K. matmul A (transpose_m H) ! b ! t * G ! t ! k)"
    by (intro sum.cong) (simp_all add: x y sym mult.commute)
  also have "\<dots> = matmul (matmul A (transpose_m H)) G ! b ! k"
    by (rule nth_nth_matmul [OF Y G K b k, symmetric])
  finally show "transpose_m (matmul G (matmul H (transpose_m A))) ! b ! k =
                matmul (matmul A (transpose_m H)) G ! b ! k" .
qed

subsection \<open>Claims about the symmetry operators\<close>

text \<open>
  C3. For a footprint whose peaks lie inside its bounding box, \<^verbatim>\<open>getSymmetryDiffOp\<close>
  returns one operator per peak, and the operator of source s is
  I + transpose(S) . S - 2 S for the symmetry operator S of that source. The code
  computes I + S . S - 2 S; every operator that \<^verbatim>\<open>getPeakSymmetryOperator\<close> builds is a
  symmetric matrix, so the two agree.
\<close>

theorem C3_diff_operator:
  assumes "\<forall>s<length (peaks fp). fst (peaks fp ! s) < width fp \<and> snd (peaks fp ! s) < height fp"
  shows "length (getSymmetryDiffOp H fp) = length (peaks fp) \<and>
         (\<forall>s<length (peaks fp).
            getSymmetryDiffOp H fp ! s = symmetryDiff_spec (getSymmetryOperator H fp ! s))"
proof -
  have "getSymmetryDiffOp H fp ! s = symmetryDiff_spec (getSymmetryOperator H fp ! s)"
    if s: "s < length (peaks fp)" for s
  proof -
    have "transpose_m (getSymmetryOperator H fp ! s) = getSymmetryOperator H fp ! s"
      unfolding nth_getSymmetryOperator [OF s]
      using assms s by (intro getPeakSymmetryOperator_transpose) simp_all
    then show ?thesis
      using s by (simp add: getSymmetryDiffOp_def length_getSymmetryOperator symmetryDiff_def symmetryDiff_spec_def)
  qed
  then show ?thesis by (simp add: getSymmetryDiffOp_def length_getSymmetryOperator)
qed


theorem C3_diff_operator_witness:
  "getSymmetryDiffOp [[1, 1, 3, 1], [2, 2, 2, 2]] \<lparr>height = 1, width = 4, peaks = [(1, 0)]\<rparr> ! 0 =
     symmetryDiff_spec [[0, 0, 1, 0], [0, 1, 0, 0], [1, 0, 0, 0], [0, 0, 0, 0]]"
proof -
  have S: "getSymmetryOperator [[1, 1, 3, 1], [2, 2, 2, 2]] \<lparr>height = 1, width = 4, peaks = [(1, 0)]\<rparr> =
      [[[0, 0, 1, 0], [0, 1, 0, 0], [1, 0, 0, 0], [0, 0, 0, 0]]]"
    by code_simp
  have h: "\<forall>s<length (peaks \<lparr>height = 1, width = 4, peaks = [(1, 0)]\<rparr>).
      fst (peaks \<lparr>height = 1, width = 4, peaks = [(1, 0)]\<rparr> ! s) < width \<lparr>height = 1, width = 4, peaks = [(1, 0)]\<rparr> \<and>
      snd (peaks \<lparr>height = 1, width = 4, peaks = [(1, 0)]\<rparr> ! s) < height \<lparr>height = 1, width = 4, peaks = [(1, 0)]\<rparr>"
    by simp
  have e: "getSymmetryDiffOp [[1, 1, 3, 1], [2, 2, 2, 2]] \<lparr>height = 1, width = 4, peaks = [(1, 0)]\<rparr> ! 0 =
      symmetryDiff_spec (getSymmetryOperator [[1, 1, 3, 1], [2, 2, 2, 2]]
        \<lparr>height = 1, width = 4, peaks = [(1, 0)]\<rparr> ! 0)"
    by (rule C3_diff_operator [OF h, THEN conjunct2, rule_format]) simp
  show ?thesis unfolding e S by (simp only: nth_Cons_0)
qed


text \<open>
  C4, the code at a failing input. A footprint of one row of three pixels with its one
  peak at the centre, and an H of two rows (the source and the background):
  \<^verbatim>\<open>getSymmetryOperator\<close> hands \<^verbatim>\<open>H[0:]\<close>, both rows, to \<^verbatim>\<open>getPeakSymmetryOperator\<close>,
  whose centre branch builds the reversal of \<^verbatim>\<open>np.size(row)\<close> = 6 entries: the operator
  is 6 x 6 where the bounding box has 3 pixels.
\<close>

theorem C4_operator_shape_failing_input:
  "getSymmetryOperator [[1, 2, 1], [5, 5, 5]] \<lparr>height = 1, width = 3, peaks = [(1, 0)]\<rparr> =
     [[[0, 0, 0, 0, 0, 1], [0, 0, 0, 0, 1, 0], [0, 0, 0, 1, 0, 0],
       [0, 0, 1, 0, 0, 0], [0, 1, 0, 0, 0, 0], [1, 0, 0, 0, 0, 0]]]"
  by code_simp

text \<open>
  C5, the claim as stated, refuted. One row of five pixels with the peak at x = 1 and the
  row v = (5, 9, 5, 2, 1), the profile of a source that is symmetric about its peak and
  is cut by the edge of the bounding box: every pixel whose mirror image is in the box
  has the value of its mirror image, yet S.v = (5, 9, 5, 0, 0) and D.v = (0, 0, 0, 2, 1).
\<close>

theorem C5_symmetric_row_counterexample:
  "point_symmetric (1, 5) 1 0 [5, 9, 5, 2, 1] \<and>
   matvec (getPeakSymmetryOperator [[5, 9, 5, 2, 1]] (1, 5) 1 0) [5, 9, 5, 2, 1] = [5, 9, 5, 0, 0] \<and>
   matvec (symmetryDiff (getPeakSymmetryOperator [[5, 9, 5, 2, 1]] (1, 5) 1 0)) [5, 9, 5, 2, 1] =
     [0, 0, 0, 2, 1]"
  by code_simp


text \<open>
  C5, amended. For a peak inside the bounding box and a row v of one value per pixel: if
  v is point-symmetric about the peak and is zero at every pixel whose mirror image falls
  outside the bounding box, then S.v = v for the operator S that
  \<^verbatim>\<open>getPeakSymmetryOperator\<close> builds from the row, and D.v = 0 for D = I + S.S - 2S.
\<close>

theorem C5_symmetric_row_amended:
  assumes px: "px < w" and py: "py < h" and lv: "length v = w * h"
    and ps: "point_symmetric (h, w) px py v" and vo: "vanishes_off_mirror (h, w) px py v"
  shows "matvec (getPeakSymmetryOperator [v] (h, w) px py) v = v \<and>
         matvec (symmetryDiff (getPeakSymmetryOperator [v] (h, w) px py)) v = replicate (w * h) 0"
proof -
  have sz: "size_m [v] = w * h" using lv by (simp add: size_m_def)
  have f: "matvec (getPeakSymmetryOperator [v] (h, w) px py) v = v"
    using px py sz lv ps vo by (rule symmetric_row_fixed)
  have "matvec (symmetryDiff (getPeakSymmetryOperator [v] (h, w) px py)) v = replicate (w * h) 0"
    using is_mat_getPeakSymmetryOperator [OF px py sz] lv f by (rule symmetryDiff_fixed)
  with f show ?thesis by simp
qed


theorem C5_symmetric_row_amended_witness:
  "matvec (getPeakSymmetryOperator [[5, 9, 5, 0, 0]] (1, 5) 1 0) [5, 9, 5, 0, 0] = [5, 9, 5, 0, 0] \<and>
   matvec (symmetryDiff (getPeakSymmetryOperator [[5, 9, 5, 0, 0]] (1, 5) 1 0)) [5, 9, 5, 0, 0] =
     [0, 0, 0, 0, 0]"
proof -
  have ps: "point_symmetric (1, 5) 1 0 [5, 9, 5, 0, 0]" by code_simp
  have vo: "vanishes_off_mirror (1, 5) 1 0 [5, 9, 5, 0, 0]" by code_simp
  have lv: "length [5, 9, 5, 0, 0 :: real] = 5 * 1" by simp
  show ?thesis
    using C5_symmetric_row_amended [OF _ _ lv ps vo] by (simp add: numeral_eq_Suc)
qed


text \<open>
  C6. For a peak inside the bounding box and off its centre, with extraWidth the width
  of the bounding box minus the width of the symmetric sub-rectangle: for every interior
  row i < tHeight - 1 and every extra column j < extraWidth, the diagonal entry at
  idx = (i+1)*tWidth + i*extraWidth + j of the sub-block is zero before the reversal,
  and the row smin + idx of the operator is a zero row. No entry of the operator joins
  a pixel to anything but its mirror image in the bounding box.
\<close>

theorem C6_extra_columns_zeroed:
  assumes px: "px < w" and py: "py < h" and oc: "\<not> (2 * px + 1 = w \<and> 2 * py + 1 = h)"
    and yr: "axis_range py h = (ymin, ymax)" and xr: "axis_range px w = (xmin, xmax)"
    and tW: "tWidth = xmax - xmin" and tH: "tHeight = ymax - ymin" and eW: "extraWidth = w - tWidth"
    and i: "i < tHeight - 1" and j: "j < extraWidth"
    and idx: "idx = (i + 1) * tWidth + i * extraWidth + j"
  shows "zero_extra tWidth extraWidth tHeight (eye ((tHeight - 1) * w + tWidth)) ! idx ! idx = 0 \<and>
         getPeakSymmetryOperator row (h, w) px py ! (ymin * w + xmin + idx) = replicate (w * h) 0 \<and>
         (\<forall>y<h. \<forall>x<w. \<forall>b<w * h. getPeakSymmetryOperator row (h, w) px py ! (y * w + x) ! b \<noteq> 0 \<longrightarrow>
            mirror_in_box (h, w) px py y x \<and> b = (2 * py - y) * w + (2 * px - x))"
proof -
  let ?S = "getPeakSymmetryOperator row (h, w) px py"
  let ?pixels = "(tHeight - 1) * w + tWidth"
  let ?smin = "ymin * w + xmin"
  note ay = axis_range_pair [OF py yr]
  note ax = axis_range_pair [OF px xr]
  note g = block_arith [OF ay ax]
  have tw: "tWidth \<le> w" unfolding tW using ax by linarith
  have z: "zeroed tWidth extraWidth tHeight idx" unfolding zeroed_def idx using i j by blast
  have idx': "idx = i * w + tWidth + j" unfolding idx eW by (rule idx_form [OF tw])
  have "Suc i * w \<le> (tHeight - 1) * w" using i by (intro mult_le_mono1) simp
  then have lt: "idx < ?pixels" unfolding idx' using j eW by simp
  have p: "(ymax - ymin - 1) * w + (xmax - xmin) = ?pixels" unfolding tW tH ..
  have a: "?smin + idx < w * h" using g(1,2,3) lt unfolding p by linarith
  have S: "is_mat (w * h) (w * h) ?S"
    using symmetry_operator_entries [OF px py oc yr xr] by blast
  note E = symmetry_operator_entries [OF px py oc yr xr, of row, THEN conjunct2, rule_format, OF a]
  have d: "zero_extra tWidth extraWidth tHeight (eye ?pixels) ! idx ! idx = 0"
    using zero_extra_eye [of ?pixels tWidth extraWidth tHeight, THEN conjunct2, rule_format, OF lt lt] z
    by simp
  have r: "?S ! (?smin + idx) = replicate (w * h) 0"
  proof (rule nth_equalityI)
    show "length (?S ! (?smin + idx)) = length (replicate (w * h) (0::real))"
      using S a by (simp add: is_mat_def)
  next
    fix b assume "b < length (?S ! (?smin + idx))"
    then have b: "b < w * h" using S a by (simp add: is_mat_def)
    show "?S ! (?smin + idx) ! b = replicate (w * h) 0 ! b"
      unfolding E [OF b] using z b unfolding tW tH eW by simp
  qed
  have n: "\<forall>y<h. \<forall>x<w. \<forall>b<w * h. ?S ! (y * w + x) ! b \<noteq> 0 \<longrightarrow>
            mirror_in_box (h, w) px py y x \<and> b = (2 * py - y) * w + (2 * px - x)"
    using operator_row_off_centre [OF px py oc, of _ _ _ row] by (auto split: if_splits)
  from d r n show ?thesis by blast
qed


theorem C6_extra_columns_zeroed_witness:
  "getPeakSymmetryOperator [] (3, 3) 0 1 ! 1 = replicate 9 0"
proof -
  have yr: "axis_range 1 3 = (0, 3)" and xr: "axis_range 0 3 = (0, 1)" by (simp_all add: axis_range_def)
  have px: "(0::nat) < 3" and py: "(1::nat) < 3" and oc: "\<not> (2 * 0 + 1 = (3::nat) \<and> 2 * 1 + 1 = (3::nat))"
    by simp_all
  have tW: "(1::nat) = 1 - 0" and tH: "(3::nat) = 3 - 0" and eW: "(2::nat) = 3 - 1"
    and i: "(0::nat) < 3 - 1" and j: "(0::nat) < 2" and idx: "(1::nat) = (0 + 1) * 1 + 0 * 2 + 0"
    by simp_all
  have "getPeakSymmetryOperator [] (3, 3) 0 1 ! (0 * 3 + 0 + 1) = replicate (3 * 3) 0"
    by (rule C6_extra_columns_zeroed [OF px py oc yr xr tW tH eW i j idx, THEN conjunct2, THEN conjunct1])
  then show ?thesis by simp
qed

subsection \<open>Claims about the multiplicative update and the symmetry penalty\<close>

text \<open>
  The path of \<^verbatim>\<open>multiplicativeUpdate\<close> without difference operators does keep W and H
  non-negative, for every number of iterations: no denominator is zero, and it returns.
\<close>

lemma multiplicativeUpdate_without_diffOp_nonneg:
  assumes "is_mat B P A" "is_mat B K W" "is_mat K P H" "0 < B" "0 < K" "0 < P"
    and "nonneg A" "nonneg W" "nonneg H"
  shows "\<exists>W' H'. iterate_update n (\<lambda>W H. multiplicativeUpdate A W H offset includeBkg beta None) W H = Inr (W', H') \<and>
           nonneg W' \<and> nonneg H'"
  using iterate_multiplicativeUpdate_None_nonneg [OF assms(1,4,5,6,7,2,3,8,9)] by blast

text \<open>
  C1, the code at a failing input. A footprint of one row of four pixels with one peak at
  x = 1, no background row, the non-negative matrices A = [[1, 1, 1, 1]], W = [[1]] and
  H = [[1, 1, 3, 1]], weight beta = 1 and the difference operators that
  \<^verbatim>\<open>getSymmetryDiffOp\<close> builds for this footprint: the penalty row D.H[0] is
  (-4, 0, 4, 1), the denominator of the first pixel is 1 - 4 + 1e-9, and one call of
  \<^verbatim>\<open>multiplicativeUpdate\<close> returns a negative entry in H.
\<close>

theorem C1_nonnegativity_failing_input:
  "multiplicativeUpdate [[1, 1, 1, 1]] [[1]] [[1, 1, 3, 1]] 0 False 1
     (Some (getSymmetryDiffOp [[1, 1, 3, 1]] \<lparr>height = 1, width = 4, peaks = [(1, 0)]\<rparr>)) =
   Inr ([[1]], [[- (1000000000 / 2999999999), 1000000000 / 1000000001,
                 3000000000 / 7000000001, 1000000000 / 2000000001]])"
  by code_simp

text \<open>
  C2, the claim as stated, refuted: \<^verbatim>\<open>multiplicativeUpdate\<close> divides a column by the sum
  of its absolute values. For W = [[3, -1], [1, 1]], A = [[1], [2]] and H = [[1], [1]]
  the second column before the normalisation is (-1, 2) / (2 + 1e-9), whose sum is not 0,
  and the second column of the returned W is (-1/3, 2/3), whose sum is 1/3.
\<close>

theorem C2_normalization_counterexample:
  "multiplicativeUpdate [[1], [2]] [[3, -1], [1, 1]] [[1], [1]] 0 False 0 None =
     Inr ([[3 / 5, - (1 / 3)], [2 / 5, 2 / 3]],
          [[4200000000 / 1760000003], [9000000000 / 5600000009]]) \<and>
   multiplicativeW [[1], [2]] [[3, -1], [1, 1]] [[1], [1]] =
     Inr [[1000000000 / 666666667, - (1000000000 / 2000000001)],
          [2000000000 / 2000000001, 2000000000 / 2000000001]]"
  by code_simp

text \<open>
  C2, amended. For A of shape bands x pixels, W of shape bands x sources and H of shape
  sources x pixels, and every column j, whenever the functions return real matrices (no
  denominator of the update is zero, every peak has a filter):
  after \<^verbatim>\<open>createInitWH\<close> the column of W sums to 1, unless it summed to 0 before the
  normalisation and is then unchanged; after \<^verbatim>\<open>multiplicativeUpdate\<close> the absolute
  values of the column of W sum to 1, unless they summed to 0 before the normalisation and
  the column is then unchanged; and when A, W and H are non-negative the column itself
  sums to 1, unless it summed to 0 before the normalisation and is then unchanged.
\<close>

theorem C2_normalization_amended:
  assumes A: "is_mat B P A" and W: "is_mat B K W" and H: "is_mat K P H"
    and B: "0 < B" and K: "0 < K" and P: "0 < P" and j: "j < K"
    and W0: "is_mat B K (initW pinv data' fpPixels area offset0 includeBkg0)"
    and init: "createInitWH pinv data' fpPixels area offset0 includeBkg0 = Inr (W1, H1)"
    and upd: "multiplicativeUpdate A W H offset includeBkg beta diffOp = Inr (W', H')"
  shows "(let W0 = initW pinv data' fpPixels area offset0 includeBkg0
          in ((\<Sum>i<B. W0 ! i ! j) \<noteq> 0 \<longrightarrow> (\<Sum>i<B. W1 ! i ! j) = 1) \<and>
             ((\<Sum>i<B. W0 ! i ! j) = 0 \<longrightarrow> (\<forall>i<B. W1 ! i ! j = W0 ! i ! j))) \<and>
         (\<exists>Wm. multiplicativeW A W H = Inr Wm \<and>
             ((\<Sum>i<B. \<bar>Wm ! i ! j\<bar>) \<noteq> 0 \<longrightarrow> (\<Sum>i<B. \<bar>W' ! i ! j\<bar>) = 1) \<and>
             ((\<Sum>i<B. \<bar>Wm ! i ! j\<bar>) = 0 \<longrightarrow> (\<forall>i<B. W' ! i ! j = Wm ! i ! j)) \<and>
             (nonneg A \<and> nonneg W \<and> nonneg H \<longrightarrow>
                ((\<Sum>i<B. Wm ! i ! j) \<noteq> 0 \<longrightarrow> (\<Sum>i<B. W' ! i ! j) = 1) \<and>
                ((\<Sum>i<B. Wm ! i ! j) = 0 \<longrightarrow> (\<forall>i<B. W' ! i ! j = Wm ! i ! j))))"
proof -
  obtain Wm where r: "multiplicativeW A W H = Inr Wm" and W': "W' = normalizeAbs Wm"
    using multiplicativeUpdate_fst [OF upd] by blast
  have Wm: "is_mat B K Wm" using A W H K P r by (rule is_mat_multiplicativeW)
  have init: "((\<Sum>i<B. initW pinv data' fpPixels area offset0 includeBkg0 ! i ! j) \<noteq> 0 \<longrightarrow>
                (\<Sum>i<B. W1 ! i ! j) = 1) \<and>
              ((\<Sum>i<B. initW pinv data' fpPixels area offset0 includeBkg0 ! i ! j) = 0 \<longrightarrow>
                (\<forall>i<B. W1 ! i ! j = initW pinv data' fpPixels area offset0 includeBkg0 ! i ! j))"
    unfolding createInitWH_fst [OF init] using W0 B j by (rule normalizeSum_col)
  have abs: "((\<Sum>i<B. \<bar>Wm ! i ! j\<bar>) \<noteq> 0 \<longrightarrow> (\<Sum>i<B. \<bar>W' ! i ! j\<bar>) = 1) \<and>
             ((\<Sum>i<B. \<bar>Wm ! i ! j\<bar>) = 0 \<longrightarrow> (\<forall>i<B. W' ! i ! j = Wm ! i ! j))"
    unfolding W' using Wm B j by (rule normalizeAbs_col)
  have nn: "nonneg A \<and> nonneg W \<and> nonneg H \<longrightarrow>
              ((\<Sum>i<B. Wm ! i ! j) \<noteq> 0 \<longrightarrow> (\<Sum>i<B. W' ! i ! j) = 1) \<and>
              ((\<Sum>i<B. Wm ! i ! j) = 0 \<longrightarrow> (\<forall>i<B. W' ! i ! j = Wm ! i ! j))"
  proof
    assume n: "nonneg A \<and> nonneg W \<and> nonneg H"
    then have "nonneg Wm" using multiplicativeW_nonneg [OF A W H K P] r by auto
    then have "\<And>i. i < B \<Longrightarrow> 0 \<le> Wm ! i ! j" using nonneg_nth [OF _ Wm _ j] by blast
    with Wm B j show "((\<Sum>i<B. Wm ! i ! j) \<noteq> 0 \<longrightarrow> (\<Sum>i<B. W' ! i ! j) = 1) \<and>
              ((\<Sum>i<B. Wm ! i ! j) = 0 \<longrightarrow> (\<forall>i<B. W' ! i ! j = Wm ! i ! j))"
      unfolding W' by (rule normalizeAbs_col_nonneg)
  qed
  show ?thesis unfolding Let_def using init abs nn r by blast
qed

theorem C2_normalization_amended_witness:
  "createInitWH (\<lambda>H. [[1, 0], [-1, 1]]) [[2, 1], [1, -1]] [[[1, 0]]] 2 1 True =
     Inr ([[1 / 3, 1], [2 / 3, -1]], [[3, 0], [1, 1]]) \<and>
   [[1 / 3, 1], [2 / 3, -1 :: real]] ! 0 ! 1 =
      initW (\<lambda>H. [[1, 0], [-1, 1]]) [[2, 1], [1, -1]] [[[1, 0]]] 2 1 True ! 0 ! 1 \<and>
   [[1 / 3, 1], [2 / 3, -1 :: real]] ! 1 ! 1 =
      initW (\<lambda>H. [[1, 0], [-1, 1]]) [[2, 1], [1, -1]] [[[1, 0]]] 2 1 True ! 1 ! 1 \<and>
   multiplicativeUpdate [[1], [2]] [[3, -1], [1, 1]] [[1], [1]] 0 False 0 None =
     Inr ([[3 / 5, - (1 / 3)], [2 / 5, 2 / 3]],
          [[4200000000 / 1760000003], [9000000000 / 5600000009]]) \<and>
   (\<Sum>i<2. \<bar>[[3 / 5, - (1 / 3)], [2 / 5, 2 / 3 :: real]] ! i ! 1\<bar>) = 1"
proof -
  have A: "is_mat 2 1 [[1], [2]]" and W: "is_mat 2 2 [[3, -1], [1, 1]]" and H: "is_mat 2 1 [[1], [1]]"
    by (simp_all add: is_mat_def less_Suc_eq numeral_2_eq_2)
  have i: "initW (\<lambda>H. [[1, 0], [-1, 1]]) [[2, 1], [1, -1]] [[[1, 0]]] 2 1 True = [[1, 1], [2, -1]]"
    by code_simp
  have W0: "is_mat 2 2 (initW (\<lambda>H. [[1, 0], [-1, 1]]) [[2, 1], [1, -1]] [[[1, 0]]] 2 1 True)"
    unfolding i by (simp add: is_mat_def less_Suc_eq numeral_2_eq_2)
  have init: "createInitWH (\<lambda>H. [[1, 0], [-1, 1]]) [[2, 1], [1, -1]] [[[1, 0]]] 2 1 True =
     Inr ([[1 / 3, 1], [2 / 3, -1]], [[3, 0], [1, 1]])"
    by code_simp
  have upd: "multiplicativeUpdate [[1], [2]] [[3, -1], [1, 1]] [[1], [1]] 0 False 0 None =
     Inr ([[3 / 5, - (1 / 3)], [2 / 5, 2 / 3]],
          [[4200000000 / 1760000003], [9000000000 / 5600000009]])"
    by code_simp
  have m: "multiplicativeW [[1], [2]] [[3, -1], [1, 1]] [[1], [1]] =
     Inr [[1000000000 / 666666667, - (1000000000 / 2000000001)],
          [2000000000 / 2000000001, 2000000000 / 2000000001]]"
    by code_simp
  have s0: "(\<Sum>i<2. [[1, 1], [2, -1 :: real]] ! i ! 1) = 0"
    by (simp add: lessThan_Suc numeral_2_eq_2)
  have s1: "(\<Sum>i<2. \<bar>[[1000000000 / 666666667, - (1000000000 / 2000000001)],
          [2000000000 / 2000000001, 2000000000 / 2000000001 :: real]] ! i ! 1\<bar>) \<noteq> 0"
    by (simp add: lessThan_Suc numeral_2_eq_2)
  note t = C2_normalization_amended [OF A W H _ _ _ _ W0 init upd, of 1, unfolded Let_def i m]
  have a: "\<forall>i<2. [[1 / 3, 1], [2 / 3, -1 :: real]] ! i ! 1 = [[1, 1], [2, -1]] ! i ! 1"
    using t s0 by simp
  have b: "(\<Sum>i<2. \<bar>[[3 / 5, - (1 / 3)], [2 / 5, 2 / 3 :: real]] ! i ! 1\<bar>) = 1"
    using t s1 by auto
  have a0: "[[1 / 3, 1], [2 / 3, -1 :: real]] ! 0 ! 1 = [[1, 1], [2, -1]] ! 0 ! 1"
    and a1: "[[1 / 3, 1], [2 / 3, -1 :: real]] ! 1 ! 1 = [[1, 1], [2, -1]] ! 1 ! 1"
    using a by simp_all
  show ?thesis unfolding i using init upd a0 a1 b by blast
qed

text \<open>
  The operator that \<^verbatim>\<open>getSymmetryDiffOp\<close> builds for a centred peak under a background
  row has 6 columns for rows of 3 pixels: \<^verbatim>\<open>getIntensityDiff\<close> raises \<^verbatim>\<open>ValueError\<close>.
\<close>

lemma getIntensityDiff_operator_does_not_fit:
  "getIntensityDiff [[1, 2, 1], [5, 5, 5]]
     (getSymmetryDiffOp [[1, 2, 1], [5, 5, 5]] \<lparr>height = 1, width = 3, peaks = [(1, 0)]\<rparr>) 0 True =
   Inl ValueError"
  by code_simp

text \<open>
  C10, the claim as stated, refuted. For an H without rows and no operators the call with
  \<^verbatim>\<open>includeBkg=True\<close> raises \<^verbatim>\<open>IndexError\<close> at \<^verbatim>\<open>H[-1]\<close>, the call with
  \<^verbatim>\<open>includeBkg=False\<close> returns the empty array. And when the list of operators is as long
  as H, the last row of the result is not zero.
\<close>

theorem C10_intensityDiff_counterexample:
  "getIntensityDiff [] [] 0 True = Inl IndexError \<and> getIntensityDiff [] [] 0 False = Inr [] \<and>
   getIntensityDiff [[1, 2]] [eye 2] 0 True = Inr [[1, 2]]"
  by code_simp

text \<open>
  C10, amended. For every H with at least one row, every list of operators, offset and
  includeBkg, \<^verbatim>\<open>getIntensityDiff(H, diffOp, offset, includeBkg)\<close> is
  \<^verbatim>\<open>getIntensityDiff(H, diffOp, 0, False)\<close>, as a returned array or as a raised error;
  for an H without rows the call with \<^verbatim>\<open>includeBkg=True\<close> raises \<^verbatim>\<open>IndexError\<close>,
  whatever the operators. When there are fewer operators than rows of H (one per real
  source, the last row being the background) and the call returns, the result has as
  many rows as H and its last row is zero. The call does return when H has at least one
  row, of P pixels each, there are no more operators than rows and every operator is
  P x P.
\<close>

theorem C10_intensityDiff_amended:
  "(H \<noteq> [] \<longrightarrow> getIntensityDiff H diffOp offset includeBkg = getIntensityDiff H diffOp 0 False) \<and>
   getIntensityDiff [] diffOp offset True = Inl IndexError \<and>
   (length diffOp < length H \<longrightarrow> getIntensityDiff H diffOp offset includeBkg = Inr Hdiff \<longrightarrow>
      length Hdiff = length H \<and> last Hdiff = replicate (ncols H) 0) \<and>
   (H \<noteq> [] \<longrightarrow> is_mat (length H) P H \<longrightarrow> length diffOp \<le> length H \<longrightarrow>
      list_all (is_mat P P) diffOp \<longrightarrow>
      (\<exists>Hd. getIntensityDiff H diffOp offset includeBkg = Inr Hd \<and> is_mat (length H) P Hd))"
proof -
  have c1: "getIntensityDiff H diffOp offset includeBkg = getIntensityDiff H diffOp 0 False"
    if "H \<noteq> []"
    using that by (simp add: getIntensityDiff_def last_row_def Let_def split: sum.splits)
  have c2: "getIntensityDiff [] diffOp offset True = Inl IndexError"
    by (cases diffOp) (simp_all add: getIntensityDiff_def last_row_def zeros_def)
  have c3: "length Hdiff = length H \<and> last Hdiff = replicate (ncols H) 0"
    if l: "length diffOp < length H" and r: "getIntensityDiff H diffOp offset includeBkg = Inr Hdiff"
  proof -
    from r have loop: "intensityDiff_loop H diffOp 0 (zeros (length H) (ncols H)) = Inr Hdiff"
      by (auto simp: getIntensityDiff_def Let_def split: sum.splits if_splits)
    note a = intensityDiff_loop_Inr [OF loop]
    have len: "length Hdiff = length H" using a by (simp add: zeros_def)
    then have ne: "Hdiff \<noteq> []" using l by auto
    have "last Hdiff = Hdiff ! (length H - 1)" using ne len by (simp add: last_conv_nth)
    also have "\<dots> = zeros (length H) (ncols H) ! (length H - 1)" using a l by simp
    also have "\<dots> = replicate (ncols H) 0" using l by (simp add: zeros_def)
    finally have "last Hdiff = replicate (ncols H) 0" .
    with len show ?thesis by blast
  qed
  have c4: "\<exists>Hd. getIntensityDiff H diffOp offset includeBkg = Inr Hd \<and> is_mat (length H) P Hd"
    if ne: "H \<noteq> []" and H: "is_mat (length H) P H" and le: "length diffOp \<le> length H"
      and ops: "list_all (is_mat P P) diffOp"
  proof -
    have "0 < length H" using ne by simp
    then have nc: "ncols H = P" using H by (intro ncols_is_mat)
    have z: "is_mat (length H) P (zeros (length H) (ncols H))" unfolding nc by (simp add: is_mat_def zeros_def)
    have "0 + length diffOp \<le> length H" using le by simp
    from intensityDiff_loop_returns [OF H this ops z]
    obtain Hd where "intensityDiff_loop H diffOp 0 (zeros (length H) (ncols H)) = Inr Hd"
      "is_mat (length H) P Hd" by blast
    then show ?thesis
      using ne by (simp add: getIntensityDiff_def last_row_def Let_def)
  qed
  from c1 c2 c3 c4 show ?thesis by blast
qed

theorem C10_intensityDiff_amended_witness:
  "getIntensityDiff [[1, 2], [5, 5]] [[[0, 1], [1, 0]]] 3 True =
     getIntensityDiff [[1, 2], [5, 5]] [[[0, 1], [1, 0]]] 0 False \<and>
   getIntensityDiff [[1, 2], [5, 5]] [[[0, 1], [1, 0]]] 3 True = Inr [[2, 1], [0, 0]] \<and>
   last [[2, 1], [0, 0 :: real]] = replicate (ncols [[1, 2], [5, 5]]) 0"
proof -
  have ne: "[[1, 2], [5, 5]] \<noteq> ([] :: matrix)" by simp
  have l: "length [[[0, 1], [1, 0 :: real]]] < length [[1, 2], [5, 5 :: real]]" by simp
  have v: "getIntensityDiff [[1, 2], [5, 5]] [[[0, 1], [1, 0]]] 3 True = Inr [[2, 1], [0, 0]]"
    by code_simp
  note t = C10_intensityDiff_amended [of "[[1, 2], [5, 5]]" "[[[0, 1], [1, 0]]]" 3 True "[[2, 1], [0, 0]]"]
  have e: "getIntensityDiff [[1, 2], [5, 5]] [[[0, 1], [1, 0]]] 3 True =
     getIntensityDiff [[1, 2], [5, 5]] [[[0, 1], [1, 0]]] 0 False"
    using t ne by blast
  have z: "last [[2, 1], [0, 0 :: real]] = replicate (ncols [[1, 2], [5, 5]]) 0"
    using t l v by blast
  from e v z show ?thesis by blast
qed

text \<open>
  C7, the claim as stated, refuted. For A = [[1, 0]] and H the 2 x 2 identity the code
  inverts [[1 + 1e-9, 1e-9], [1e-9, 1 + 1e-9]] and returns W = [[1, -1]], where the
  regulariser on the diagonal gives W = [[1, 0]]. For H = 0 with two sources the code
  inverts the singular matrix of entries 1e-9 and raises \<^verbatim>\<open>LinAlgError\<close>, where the
  regulariser on the diagonal gives an invertible matrix and a result.
\<close>

theorem C7_inverse_update_counterexample:
  "inverseUpdate [[1, 0]] [[1, 1]] [[1, 0], [0, 1]] = Inr ([[1, - 1]], [[1 / 2, 0], [- (1 / 2), 0]]) \<and>
   inverseUpdate_spec [[1, 0]] [[1, 1]] [[1, 0], [0, 1]] =
     Inr ([[1, 0]], [[1000000000 / 1000000001, 0], [0, 0]]) \<and>
   inverseUpdate [[1, 1]] [[1, 1]] [[0, 0], [0, 0]] = Inl LinAlgError \<and>
   inverseUpdate_spec [[1, 1]] [[1, 1]] [[0, 0], [0, 0]] = Inr ([[0, 0]], [[0, 0], [0, 0]])"
proof -
  have 1: "inverseUpdate [[1, 0]] [[1, 1]] [[1, 0], [0, 1]] = Inr ([[1, - 1]], [[1 / 2, 0], [- (1 / 2), 0]])"
    by (simp add: inverseUpdate_def inv_eval mat_eval eps_def)
  have g: "linalg_inv (add_diag (matmul [[1, 0], [0, 1]] (transpose_m [[1, 0], [0, 1]])) eps) =
      Inr [[1000000000 / 1000000001, 0], [0, 1000000000 / 1000000001]]"
    by (simp add: add_diag_def inv_eval mat_eval eps_def)
  have w: "normalizeAbs (matmul (matmul [[1, 0]] (transpose_m [[1, 0], [0, 1]]))
      [[1000000000 / 1000000001, 0], [0, 1000000000 / 1000000001]]) = [[1, 0]]"
    by (simp add: mat_eval)
  have g': "linalg_inv (add_diag (matmul (transpose_m [[1, 0]]) [[1, 0]]) eps) =
      Inr [[1000000000 / 1000000001, 0], [0, 1000000000]]"
    by (simp add: add_diag_def inv_eval mat_eval eps_def)
  have h: "matmul [[1000000000 / 1000000001, 0], [0, 1000000000]] (matmul (transpose_m [[1, 0]]) [[1, 0]]) =
      [[1000000000 / 1000000001, 0], [0, 0]]"
    by (simp add: mat_eval)
  have 2: "inverseUpdate_spec [[1, 0]] [[1, 1]] [[1, 0], [0, 1]] =
     Inr ([[1, 0]], [[1000000000 / 1000000001, 0], [0, 0]])"
    unfolding inverseUpdate_spec_def by (simp only: g w g' h Let_def sum.case)
  have 3: "inverseUpdate [[1, 1]] [[1, 1]] [[0, 0], [0, 0]] = Inl LinAlgError"
    by (simp add: inverseUpdate_def inv_eval mat_eval eps_def)
  have k: "linalg_inv (add_diag (matmul [[0, 0], [0, 0]] (transpose_m [[0, 0], [0, 0]])) eps) =
      Inr [[1000000000, 0], [0, 1000000000]]"
    by (simp add: add_diag_def inv_eval mat_eval eps_def)
  have v: "normalizeAbs (matmul (matmul [[1, 1]] (transpose_m [[0, 0], [0, 0]]))
      [[1000000000, 0], [0, 1000000000]]) = [[0, 0]]"
    by (simp add: mat_eval)
  have k': "linalg_inv (add_diag (matmul (transpose_m [[0, 0]]) [[0, 0]]) eps) =
      Inr [[1000000000, 0], [0, 1000000000]]"
    by (simp add: add_diag_def inv_eval mat_eval eps_def)
  have u: "matmul [[1000000000, 0], [0, 1000000000]] (matmul (transpose_m [[0, 0]]) [[1, 1]]) =
      [[0, 0], [0, 0]]"
    by (simp add: mat_eval)
  have 4: "inverseUpdate_spec [[1, 1]] [[1, 1]] [[0, 0], [0, 0]] = Inr ([[0, 0]], [[0, 0], [0, 0]])"
    unfolding inverseUpdate_spec_def by (simp only: k v k' u Let_def sum.case)
  from 1 2 3 4 show ?thesis by blast
qed

text \<open>
  C7, amended. For A of shape bands x pixels and H of shape sources x pixels: when
  \<^verbatim>\<open>inverseUpdate\<close> returns (W, H'), then W is A.H^t.G with its columns divided by the
  sums of their absolute values (by 1 where that sum is 0), for the inverse G of H.H^t
  with 1e-9 added to every entry, and H' = G'.W^t.A for the inverse G' of W^t.W with
  1e-9 added to every entry. When it does not return, it raises \<^verbatim>\<open>LinAlgError\<close>.
\<close>

theorem C7_inverse_update_amended:
  assumes A: "is_mat B P A" and H: "is_mat K P H" and B: "0 < B" and K: "0 < K" and P: "0 < P"
  shows "(inverseUpdate A W H = Inr (W', H') \<longrightarrow>
           (\<exists>G G'. is_inverse (add_scalar (matmul H (transpose_m H)) eps) G \<and>
              W' = normalizeAbs (matmul (matmul A (transpose_m H)) G) \<and>
              is_inverse (add_scalar (matmul (transpose_m W') W') eps) G' \<and>
              H' = matmul G' (matmul (transpose_m W') A))) \<and>
         (inverseUpdate A W H = Inl e \<longrightarrow> e = LinAlgError)"
proof
  show "inverseUpdate A W H = Inr (W', H') \<longrightarrow>
           (\<exists>G G'. is_inverse (add_scalar (matmul H (transpose_m H)) eps) G \<and>
              W' = normalizeAbs (matmul (matmul A (transpose_m H)) G) \<and>
              is_inverse (add_scalar (matmul (transpose_m W') W') eps) G' \<and>
              H' = matmul G' (matmul (transpose_m W') A))"
  proof
    assume r: "inverseUpdate A W H = Inr (W', H')"
    then obtain G G' where
      g: "linalg_inv (add_scalar (matmul H (transpose_m H)) eps) = Inr G"
      and w: "W' = normalizeAbs (transpose_m (matmul G (matmul H (transpose_m A))))"
      and g': "linalg_inv (add_scalar (matmul (transpose_m W') W') eps) = Inr G'"
      and h: "H' = matmul G' (matmul (transpose_m W') A)"
      by (auto simp: inverseUpdate_def Let_def split: sum.splits)
    note M = gram_regularized_symmetric [OF H K P]
    have i: "is_inverse (add_scalar (matmul H (transpose_m H)) eps) G" using g by (rule linalg_inv_sound)
    have lM: "length (add_scalar (matmul H (transpose_m H)) eps) = K" using M(1) by (simp add: is_mat_def)
    have G: "is_mat K K G" using is_inverseD(2) [OF i] unfolding lM .
    have s: "transpose_m G = G" using i M(2) by (rule inverse_symmetric)
    have "W' = normalizeAbs (matmul (matmul A (transpose_m H)) G)"
      unfolding w inverseUpdate_W [OF A H B K P G s] ..
    moreover have "is_inverse (add_scalar (matmul (transpose_m W') W') eps) G'"
      using g' by (rule linalg_inv_sound)
    ultimately show "\<exists>G G'. is_inverse (add_scalar (matmul H (transpose_m H)) eps) G \<and>
              W' = normalizeAbs (matmul (matmul A (transpose_m H)) G) \<and>
              is_inverse (add_scalar (matmul (transpose_m W') W') eps) G' \<and>
              H' = matmul G' (matmul (transpose_m W') A)"
      using i h by blast
  qed
next
  have l: "e' = LinAlgError" if "linalg_inv M = Inl e'" for M e'
    using that by (simp add: linalg_inv_def Let_def split: if_splits)
  show "inverseUpdate A W H = Inl e \<longrightarrow> e = LinAlgError"
    using l by (auto simp: inverseUpdate_def Let_def split: sum.splits)
qed

theorem C7_inverse_update_amended_witness:
  "inverseUpdate [[1, 0]] [[1, 1]] [[1, 0], [0, 1]] = Inr ([[1, - 1]], [[1 / 2, 0], [- (1 / 2), 0]]) \<and>
   is_inverse (add_scalar (matmul [[1, 0], [0, 1]] (transpose_m [[1, 0], [0, 1]])) eps)
     [[1000000001 / 1000000002, - (1 / 1000000002)], [- (1 / 1000000002), 1000000001 / 1000000002]] \<and>
   [[1, - 1]] = normalizeAbs (matmul (matmul [[1, 0]] (transpose_m [[1, 0], [0, 1]]))
     [[1000000001 / 1000000002, - (1 / 1000000002)], [- (1 / 1000000002), 1000000001 / 1000000002]])"
proof -
  have A: "is_mat 1 2 [[1, 0]]" and H: "is_mat 2 2 [[1, 0], [0, 1]]"
    by (simp_all add: is_mat_def less_Suc_eq numeral_2_eq_2)
  have r: "inverseUpdate [[1, 0]] [[1, 1]] [[1, 0], [0, 1]] = Inr ([[1, - 1]], [[1 / 2, 0], [- (1 / 2), 0]])"
    by (simp add: inverseUpdate_def inv_eval mat_eval eps_def)
  have i: "is_inverse (add_scalar (matmul [[1, 0], [0, 1]] (transpose_m [[1, 0], [0, 1]])) eps)
     [[1000000001 / 1000000002, - (1 / 1000000002)], [- (1 / 1000000002), 1000000001 / 1000000002]]"
    by (simp add: is_inverse_def mat_eval eps_def)
  have b: "0 < (1::nat)" and k: "0 < (2::nat)" by simp_all
  from C7_inverse_update_amended [OF A H b k k, THEN conjunct1, rule_format, OF r]
  obtain G where G: "is_inverse (add_scalar (matmul [[1, 0], [0, 1]] (transpose_m [[1, 0], [0, 1]])) eps) G"
    "[[1, - 1]] = normalizeAbs (matmul (matmul [[1, 0]] (transpose_m [[1, 0], [0, 1]])) G)"
    by blast
  have "G = [[1000000001 / 1000000002, - (1 / 1000000002)], [- (1 / 1000000002), 1000000001 / 1000000002]]"
    using G(1) i by (rule inverse_unique)
  with G(2) r i show ?thesis by blast
qed

text \<open>
  C9, the claim as stated, refuted: with W = [[1]], H = [[1, 3]] and data [[2, 2]] the
  residual of band 0 is (-1, 1); the code logs 0, the sum of absolute values over the
  sum of absolute data values is 1/2.
\<close>

theorem C9_residual_counterexample:
  "residualDifference [[1]] [[1, 3]] [[2, 2]] 0 = 0 \<and>
   residualFraction_spec [[1]] [[1, 3]] [[2, 2]] 0 = 1 / 2"
  by (simp add: residualDifference_def residualFraction_spec_def residual_def sub_m_def
      map2_m_def matmul_def ncols_def)

text \<open>
  C9, amended: for W of shape bands x sources, H of shape sources x pixels and data of
  shape bands x pixels, the percentage logged for a band is 100 times the absolute value
  of the signed sum of the residual entries (W.H - data) of that band, divided by the
  absolute value of the signed sum of the band's data.
\<close>

theorem C9_residual_amended:
  assumes W: "is_mat B K W" and H: "is_mat K P H" and A: "is_mat B P data'"
    and b: "b < B" and K: "0 < K"
  shows "residualDifference W H data' b =
           100 * \<bar>\<Sum>p<P. (\<Sum>k<K. W ! b ! k * H ! k ! p) - data' ! b ! p\<bar> / \<bar>\<Sum>p<P. data' ! b ! p\<bar>"
proof -
  have nc: "ncols H = P" using H K by (rule ncols_is_mat)
  have lW: "length W = B" "length (W ! b) = K" using W b by (auto simp: is_mat_def)
  have lA: "length data' = B" "length (data' ! b) = P" using A b by (auto simp: is_mat_def)
  have row: "matmul W H ! b = map (\<lambda>p. \<Sum>k<K. W ! b ! k * H ! k ! p) [0..<P]"
    using b lW nc by (simp add: nth_matmul)
  have res: "residual W H data' b = map2 (-) (map (\<lambda>p. \<Sum>k<K. W ! b ! k * H ! k ! p) [0..<P]) (data' ! b)"
    using b lW lA row by (simp add: residual_def sub_m_def nth_map2_m length_matmul)
  have "sum_list (residual W H data' b) = (\<Sum>p<P. (\<Sum>k<K. W ! b ! k * H ! k ! p) - data' ! b ! p)"
    unfolding sum_list_sum_lessThan using lA by (simp add: res)
  moreover have "sum_list (data' ! b) = (\<Sum>p<P. data' ! b ! p)"
    unfolding sum_list_sum_lessThan using lA by simp
  ultimately show ?thesis
    by (simp add: residualDifference_def abs_divide)
qed

theorem C9_residual_amended_witness:
  "residualDifference [[1, 2]] [[1, 3], [1, 1]] [[2, 2]] 0 = 100"
proof -
  have W: "is_mat 1 2 [[1, 2]]" and H: "is_mat 2 2 [[1, 3], [1, 1]]" and A: "is_mat 1 2 [[2, 2]]"
    by (simp_all add: is_mat_def less_Suc_eq numeral_2_eq_2)
  show ?thesis
    using C9_residual_amended [OF W H A, of 0]
    by (simp add: lessThan_Suc numeral_2_eq_2)
qed

text \<open>
  C8, the claim as stated, refuted: asking for the monotonicity operator fails nowhere.
  \<^verbatim>\<open>getMonotonicOp\<close> returns \<^verbatim>\<open>None\<close> and leaves the object as it was, and
  \<^verbatim>\<open>deblendParent\<close> with the constraint \<^verbatim>\<open>"M"\<close> on two peaks hands the constraints
  to the external solver and returns its result.
\<close>

theorem C8_not_supported_counterexample:
  "getMonotonicOp (newDeblendedParent :: (nat, string) DeblendedParent) = Inr (None, newDeblendedParent) \<and>
   deblendParent (\<lambda>d c m. Inr c) (0::nat) 2 False ''M'' 1000 =
     Inr (newDeblendedParent\<lparr>data := Some 0, result := Some ''MM''\<rparr>)"
  by (simp add: getMonotonicOp_def deblendParent_def deblend_parent_def initNMF_def
      newDeblendedParent_def lower_def numeral_2_eq_2)

text \<open>
  C8, amended: only the PSF operator surfaces as a failure. \<^verbatim>\<open>initNMF\<close> with
  \<^verbatim>\<open>initPsf=True\<close> raises \<^verbatim>\<open>NotImplementedError\<close>, and so does \<^verbatim>\<open>deblendParent\<close>,
  whatever the constraints; \<^verbatim>\<open>getMonotonicOp\<close> returns \<^verbatim>\<open>None\<close> without a failure, and
  \<^verbatim>\<open>deblendParent\<close> without the PSF operator returns what the external solver returns
  for the constraints, whether or not they ask for monotonicity.
\<close>

theorem C8_not_supported_amended:
  "initNMF built True self = Inl (NotImplementedError ''The PSF Operator is not yet implemented'') \<and>
   deblendParent solver built n True cs maxiter =
     Inl (NotImplementedError ''The PSF Operator is not yet implemented'') \<and>
   getMonotonicOp self = Inr (None, self) \<and>
   deblendParent solver built n False cs maxiter =
     (case solver built (if length cs = 1 then concat (replicate n cs) else cs) maxiter of
        Inl e \<Rightarrow> Inl e
      | Inr res \<Rightarrow> Inr (newDeblendedParent\<lparr>data := Some built, result := Some res\<rparr>))"
  by (simp add: getMonotonicOp_def deblendParent_def deblend_parent_def initNMF_def
      newDeblendedParent_def Let_def split: sum.splits)

theorem C8_not_supported_amended_witness:
  "deblendParent (\<lambda>d c m. Inr c) (0::nat) 3 True ''M'' 1000 =
     (Inl (NotImplementedError ''The PSF Operator is not yet implemented'')
        :: error + (nat, string) DeblendedParent)"
  using C8_not_supported_amended [where built = "0::nat"
      and self = "newDeblendedParent :: (nat, string) DeblendedParent"
      and solver = "\<lambda>d c m. Inr c" and n = 3 and cs = "''M''" and maxiter = 1000]
  by simp

end
